theory Spec2Isabelle
  imports Main "HOL-Library.Sublist"
begin

section \<open>Generators: chunks yielded so far, and how the run ended\<close>

text \<open>
  An async generator of the source is modelled by the list of chunks it yields and the
  way it ends: it returns (with the state it leaves behind), it throws, or it does
  neither: the model runs out of fuel (the recursion of \<open>renderValue\<close> is bounded
  by a fuel argument, since \<open>renderLight()\<close> may return any value, a render-light
  directive again among them), or a collaborator never returns.
\<close>

type_synonym chunk = string

datatype error =
    Error string
  | TypeError string

datatype 'a outcome =
    Return 'a
  | Throw error
  | OutOfFuel

type_synonym 'a gen = "chunk list \<times> 'a outcome"

text \<open>Sequencing: the chunks of the first part, then those of the second; a throw ends the run.\<close>

definition andThen :: "'a gen \<Rightarrow> ('a \<Rightarrow> 'b gen) \<Rightarrow> 'b gen" where
  "andThen m f =
     (case m of
        (cs, Return a) \<Rightarrow> (case f a of (cs', r) \<Rightarrow> (cs @ cs', r))
      | (cs, Throw e) \<Rightarrow> (cs, Throw e)
      | (cs, OutOfFuel) \<Rightarrow> (cs, OutOfFuel))"

text \<open>\<open>yield c\<close>.\<close>

definition emit :: "chunk \<Rightarrow> 'a \<Rightarrow> 'a gen" where
  "emit c a = ([c], Return a)"

definition ret :: "'a \<Rightarrow> 'a gen" where
  "ret a = ([], Return a)"

definition throw :: "error \<Rightarrow> 'a gen" where
  "throw e = ([], Throw e)"

text \<open>\<open>for (const x of xs) { yield* body(x) }\<close>.\<close>

fun forEach :: "('x \<Rightarrow> 's \<Rightarrow> 's gen) \<Rightarrow> 'x list \<Rightarrow> 's \<Rightarrow> 's gen" where
  "forEach body [] s = ret s"
| "forEach body (x # xs) s = andThen (body x s) (forEach body xs)"

section \<open>The parsed template: parse5 nodes with source locations\<close>

record location =
  startOffset :: nat
  endOffset :: nat

record element_location = location +
  startTag :: location
  attrLocations :: "(string \<times> location) list"

record attribute =
  attrName :: string
  attrValue :: string

datatype node =
    CommentNode string location
  | TextNode string location
  | Element string "attribute list" "node list" element_location

text \<open>\<open>getAttr(node, name)\<close>: the value of the first attribute of that name, or undefined.\<close>

fun getAttr :: "node \<Rightarrow> string \<Rightarrow> string option" where
  "getAttr (Element tagName attrs childNodes loc) n =
     map_option attrValue (find (\<lambda>a. attrName a = n) attrs)"
| "getAttr _ n = None"

fun isElement :: "node \<Rightarrow> bool" where
  "isElement (Element tagName attrs childNodes loc) = True"
| "isElement _ = False"

text \<open>
  Modelled from the spec: \<open>depthFirst\<close> lives in parse5-utils, which is not among the
  sources. The spec has the walker perform "a depth-first, pre-order traversal of the
  tree's nodes": the node itself, then the traversal of each child in order. It is a
  flat iteration: the caller cannot prune a subtree.
\<close>

fun depthFirst :: "node \<Rightarrow> node list" where
  "depthFirst (Element tagName attrs childNodes loc) =
     Element tagName attrs childNodes loc # concat (map depthFirst childNodes)"
| "depthFirst n = [n]"

section \<open>Values, template results, and the render state\<close>

text \<open>
  A TemplateResult carries its literal strings, its values and its digest;
  \<open>getHTML\<close> is the markup its \<open>getHTML()\<close> method returns.
\<close>

datatype 'v template_result =
  TemplateResult (strings: "string list") (vals: "'v list") (digest: string) (getHTML: string)

text \<open>
  The kinds of value \<open>renderValue\<close> tells apart with its predicates. A repeat
  directive is named by a number (the environment gives its render contract); a
  class-map directive carries the string its pre-renderer returns; \<open>VSymbol d\<close> is
  a Symbol with description \<open>d\<close>; \<open>VOther s\<close> is any remaining value,
  carried as the string its conversion gives.
\<close>

datatype val =
    VUndefined
  | VNull
  | VNothing
  | VRepeat nat
  | VRenderLight
  | VClassMap string
  | VArray "val list"
  | VSymbol string
  | VOther string
  | VTemplate "val template_result"

text \<open>A LitElement instance is an object on the heap: its tag and the properties set on it.\<close>

record obj =
  objTag :: string
  props :: "(string \<times> val) list"

record instance_entry =
  tagName :: string
  inst :: "nat option"

text \<open>
  What a render mutates outside its own locals: the \<open>instances\<close> array of the
  RenderInfo (top of the stack = last element), the heap of component instances, and
  what was written with \<open>console.error\<close>.
\<close>

record world =
  instances :: "instance_entry list"
  objects :: "obj list"
  console :: "(string \<times> error) list"

record slotInfo =
  slotName :: "string option"

record renderInfo =
  slot :: "slotInfo option"
  flattened :: bool

text \<open>\<open>ChildRenderer.renderChildren(slotName)\<close>.\<close>

type_synonym childRenderer = "string option \<Rightarrow> world \<Rightarrow> world gen"

text \<open>
  The collaborators the renderer calls and the sources do not hold:
  the marker token of lit-html, the parser, the custom element registry (a constructor
  either throws or gives the new object), \<open>reflectedAttributeName\<close>, group 2 of
  \<open>lastAttributeNameRegex.exec\<close> (None when the regex does not match), the render
  contract of each repeat directive, \<open>instance.renderLight()\<close>,
  \<open>LitElementRenderer.renderElement\<close> run with a new \<open>LitHtmlChildRenderer\<close>
  (it returns that child renderer's \<open>renderedPartIndex\<close> and the claimed-node set
  it leaves), and the text \<open>String\<close> gives for a directive function.
\<close>

record env =
  marker :: string
  parseFragment :: "string \<Rightarrow> node list option"
  customElementsGet :: "string \<Rightarrow> (error + obj) option"
  reflectedAttributeName :: "string \<Rightarrow> string \<Rightarrow> string option"
  lastAttributeNameExec :: "string \<Rightarrow> string option"
  repeatRender :: "nat \<Rightarrow> childRenderer option \<Rightarrow> renderInfo \<Rightarrow> world \<Rightarrow> world gen"
  renderLight :: "world \<Rightarrow> nat \<Rightarrow> val"
  renderElement ::
    "nat \<Rightarrow> node list \<times> string \<times> val template_result \<times> nat \<Rightarrow> renderInfo \<Rightarrow>
       node set \<times> world \<Rightarrow> (int \<times> node set \<times> world) gen"
  functionSource :: "val \<Rightarrow> string"

section \<open>Strings\<close>

text \<open>
  \<open>s.substring(a, b)\<close> of JavaScript: an undefined start counts as 0, an undefined
  end as the length; both are clamped to the length and swapped when the start is the
  larger.
\<close>

definition substring :: "string \<Rightarrow> nat option \<Rightarrow> nat option \<Rightarrow> string" where
  "substring s a b =
     (let n = length s;
          a' = (case a of None \<Rightarrow> 0 | Some x \<Rightarrow> min x n);
          b' = (case b of None \<Rightarrow> n | Some y \<Rightarrow> min y n)
      in take (max a' b' - min a' b') (drop (min a' b') s))"

text \<open>The double quote character.\<close>

definition dq :: string where
  "dq = [CHR 0x22]"

text \<open>A number in a template literal: its decimal digits.\<close>

fun natToString :: "nat \<Rightarrow> string" where
  "natToString n =
     (if n < 10 then [''0123456789'' ! n]
      else natToString (n div 10) @ [''0123456789'' ! (n mod 10)])"

declare natToString.simps [simp del]

fun join :: "string \<Rightarrow> string list \<Rightarrow> string" where
  "join sep [] = []"
| "join sep [x] = x"
| "join sep (x # y # ys) = x @ sep @ join sep (y # ys)"

text \<open>
  The text a value gives inside a template literal, \<open>`${value}`\<close>: a Symbol cannot
  be converted (a TypeError, here None); an array joins the conversions of its elements
  with commas (undefined and null elements give the empty string, a Symbol among them
  is a TypeError); a TemplateResult and the \<open>nothing\<close> sentinel are plain objects; a
  directive is a function.
\<close>

fun templateString :: "env \<Rightarrow> val \<Rightarrow> string option" where
  "templateString env VUndefined = Some ''undefined''"
| "templateString env VNull = Some ''null''"
| "templateString env VNothing = Some ''[object Object]''"
| "templateString env (VTemplate t) = Some ''[object Object]''"
| "templateString env (VSymbol d) = None"
| "templateString env (VOther s) = Some s"
| "templateString env (VArray vs) =
     map_option (join '','')
       (those (map (\<lambda>v. if v = VUndefined \<or> v = VNull then Some [] else templateString env v) vs))"
| "templateString env (VRepeat k) = Some (functionSource env (VRepeat k))"
| "templateString env VRenderLight = Some (functionSource env VRenderLight)"
| "templateString env (VClassMap s) = Some (functionSource env (VClassMap s))"

text \<open>
  \<open>String(value)\<close>: as in a template literal, but a Symbol itself gives its
  descriptive string.
\<close>

definition String_of :: "env \<Rightarrow> val \<Rightarrow> string option" where
  "String_of env v =
     (case v of
        VSymbol d \<Rightarrow> Some (''Symbol('' @ d @ '')'')
      | _ \<Rightarrow> templateString env v)"

definition symbolTypeError :: error where
  "symbolTypeError = TypeError ''Cannot convert a Symbol value to a string''"

text \<open>
  Modelled from the spec: \<open>markerRegex\<close> comes from lit-html and is not among the
  sources. The spec: a bound attribute's "raw value string may itself contain zero or
  more marker tokens ... each occurrence consumes one value, in left-to-right order".
  \<open>splitMarkers m 0 s\<close> is the list of literal pieces of \<open>s\<close> between the
  occurrences of the marker \<open>m\<close>, found left to right without overlap (the second
  argument counts the characters of a match still to be skipped).
\<close>

fun splitMarkers :: "string \<Rightarrow> nat \<Rightarrow> string \<Rightarrow> string list" where
  "splitMarkers m k [] = [[]]"
| "splitMarkers m k (c # cs) =
     (if 0 < k then splitMarkers m (k - 1) cs
      else if m \<noteq> [] \<and> prefix m (c # cs) then [] # splitMarkers m (length m - 1) cs
      else (case splitMarkers m 0 cs of
              p # ps \<Rightarrow> (c # p) # ps
            | [] \<Rightarrow> [[c]]))"

section \<open>The locals of one \<open>renderTemplateResult\<close> call\<close>

text \<open>
  \<open>partIndex\<close>, \<open>distributedIndex\<close> and \<open>lastOffset\<close> are the source's
  variables; \<open>claimedNodes\<close> is the set the call was given (the child renderer of
  an expanded component may add to it; a node stands for itself by its kind, content and
  source location); \<open>wld\<close> is the shared state. \<open>reads\<close>
  is instrumentation the source does not have: the indices of \<open>result.values\<close>
  read so far, in order.
\<close>

record walker =
  partIndex :: nat
  distributedIndex :: int
  lastOffset :: "nat option"
  claimedNodes :: "node set"
  reads :: "nat list"
  wld :: world

text \<open>\<open>result.values[i]\<close> and \<open>result.strings[i]\<close>: undefined out of range.\<close>

definition valueAt :: "val template_result \<Rightarrow> nat \<Rightarrow> val" where
  "valueAt result i = (if i < length (vals result) then vals result ! i else VUndefined)"

definition stringAt :: "val template_result \<Rightarrow> nat \<Rightarrow> string" where
  "stringAt result i =
     (if i < length (strings result) then strings result ! i else ''undefined'')"

text \<open>\<open>result.values[partIndex++]\<close>.\<close>

definition takeValue :: "val template_result \<Rightarrow> walker \<Rightarrow> val \<times> walker" where
  "takeValue result w =
     (valueAt result (partIndex w),
      w\<lparr>partIndex := Suc (partIndex w), reads := reads w @ [partIndex w]\<rparr>)"

text \<open>\<open>yield flushTo(offset)\<close>: nothing is yielded when \<open>flushTo\<close> throws.\<close>

definition flushTo :: "string \<Rightarrow> nat option \<Rightarrow> walker \<Rightarrow> walker gen" where
  "flushTo html offset w =
     (case lastOffset w of
        None \<Rightarrow> throw (Error ''lastOffset is undefined'')
      | Some previousLastOffset \<Rightarrow>
          emit (substring html (Some previousLastOffset) offset) (w\<lparr>lastOffset := offset\<rparr>))"

definition skipTo :: "nat \<Rightarrow> walker \<Rightarrow> walker" where
  "skipTo offset w = w\<lparr>lastOffset := Some offset\<rparr>"

text \<open>\<open>yield*\<close> of a generator that works on the shared state only.\<close>

definition inWorld :: "(world \<Rightarrow> world gen) \<Rightarrow> walker \<Rightarrow> walker gen" where
  "inWorld g w = andThen (g (wld w)) (\<lambda>wd. ret (w\<lparr>wld := wd\<rparr>))"

section \<open>The bracket markers\<close>

definition openPart :: chunk where
  "openPart = ''<!--lit-part-->''"

definition openPartDigest :: "string \<Rightarrow> chunk" where
  "openPartDigest d = ''<!--lit-part '' @ d @ ''-->''"

definition closePart :: chunk where
  "closePart = ''<!--/lit-part-->''"

text \<open>The single chunk yielded for a value that slot distribution has already rendered.\<close>

fun placeholder :: "val \<Rightarrow> chunk" where
  "placeholder (VTemplate t) = ''<!--lit-part '' @ digest t @ ''--><!--/lit-part-->''"
| "placeholder v = ''<!--lit-part--><!--/lit-part-->''"

section \<open>Attributes\<close>

text \<open>The replacement callback of \<open>attr.value.replace(globalMarkerRegex, ...)\<close>.\<close>

fun attrValueString :: "env \<Rightarrow> val \<Rightarrow> string option" where
  "attrValueString env (VClassMap s) = Some s"
| "attrValueString env v = String_of env v"

text \<open>
  The replaced attribute value: the literal pieces with the replacements between them.
  The callback runs once for each marker, left to right, and reads
  \<open>result.values[partIndex++]\<close> each time; a conversion that throws ends the
  \<open>replace\<close> call (None).
\<close>

fun fillMarkers ::
  "env \<Rightarrow> val template_result \<Rightarrow> string list \<Rightarrow> walker \<Rightarrow> (string \<times> walker) option" where
  "fillMarkers env result [] w = Some ([], w)"
| "fillMarkers env result [p] w = Some (p, w)"
| "fillMarkers env result (p # q # ps) w =
     (case takeValue result w of
        (v, w1) \<Rightarrow>
          (case attrValueString env v of
             None \<Rightarrow> None
           | Some s \<Rightarrow>
               (case fillMarkers env result (q # ps) w1 of
                  None \<Rightarrow> None
                | Some (r, w2) \<Rightarrow> Some (p @ s @ r, w2))))"

text \<open>\<open>instance[propertyName] = value\<close> on the object behind a reference.\<close>

definition setProperty :: "nat \<Rightarrow> string \<Rightarrow> val \<Rightarrow> world \<Rightarrow> world" where
  "setProperty r propertyName v wd =
     wd\<lparr>objects := (objects wd)[r := (objects wd ! r)\<lparr>props := (propertyName, v) #
        filter (\<lambda>kv. fst kv \<noteq> propertyName) (props (objects wd ! r))\<rparr>]\<rparr>"

text \<open>The hidden count attribute.\<close>

definition litAttr :: "nat \<Rightarrow> chunk" where
  "litAttr boundAttrsCount = '' __lit-attr='' @ dq @ natToString boundAttrsCount @ dq"

text \<open>A bound attribute: \<open>attr.name.endsWith('$lit$')\<close>.\<close>

definition isBound :: "attribute \<Rightarrow> bool" where
  "isBound attr \<longleftrightarrow> suffix ''$lit$'' (attrName attr)"

text \<open>
  One round of the loop over \<open>node.attrs\<close>; the loop state is the walker and
  \<open>boundAttrsCount\<close>. Reading \<open>startOffset\<close> of a missing attribute location
  and indexing the null result of \<open>exec\<close> are TypeErrors, and so is a value that
  cannot be converted to a string: the reflected property is written with a template
  literal, the attribute value with \<open>String(value)\<close>.
\<close>

definition handleAttr ::
  "env \<Rightarrow> val template_result \<Rightarrow> string \<Rightarrow> string \<Rightarrow> element_location \<Rightarrow> nat option \<Rightarrow>
     attribute \<Rightarrow> walker \<times> nat \<Rightarrow> (walker \<times> nat) gen" where
  "handleAttr env result html tag loc instance attr = (\<lambda>(w, boundAttrsCount).
     if isBound attr then
       (case map_of (attrLocations loc) (attrName attr) of
          None \<Rightarrow> throw (TypeError ''attrSourceLocation is undefined'')
        | Some attrSourceLocation \<Rightarrow>
            andThen
              (emit (substring html (lastOffset w) (Some (startOffset attrSourceLocation))) w)
              (\<lambda>w. andThen
                 (if prefix ''.'' (attrName attr) then
                    (case lastAttributeNameExec env (stringAt result (partIndex w)) of
                       None \<Rightarrow> throw (TypeError ''exec result is null'')
                     | Some g \<Rightarrow>
                         (let propertyName = drop 1 g;
                              (v, w1) = takeValue result w;
                              w2 = (case instance of
                                      None \<Rightarrow> w1
                                    | Some r \<Rightarrow> w1\<lparr>wld := setProperty r propertyName v (wld w1)\<rparr>)
                          in case reflectedAttributeName env tag propertyName of
                               None \<Rightarrow> ret w2
                             | Some reflectedName \<Rightarrow>
                                 (case templateString env v of
                                    None \<Rightarrow> throw symbolTypeError
                                  | Some s \<Rightarrow> emit (reflectedName @ ''='' @ dq @ s @ dq) w2)))
                  else
                    (let attributeName = take (length (attrName attr) - 5) (attrName attr);
                         pieces = splitMarkers (marker env) 0 (attrValue attr)
                     in case fillMarkers env result pieces w of
                          None \<Rightarrow> throw symbolTypeError
                        | Some (s, w1) \<Rightarrow> emit (attributeName @ ''='' @ dq @ s @ dq) w1))
                 (\<lambda>w. ret (skipTo (endOffset attrSourceLocation) w, Suc boundAttrsCount))))
     else ret (w, boundAttrsCount))"

section \<open>The instance stack\<close>

definition push :: "string \<Rightarrow> world \<Rightarrow> world" where
  "push tag wd = wd\<lparr>instances := instances wd @ [\<lparr>tagName = tag, inst = None\<rparr>]\<rparr>"

text \<open>\<open>renderInfo.instances.pop()\<close>: nothing happens on an empty array.\<close>

definition pop :: "world \<Rightarrow> world" where
  "pop wd = wd\<lparr>instances := butlast (instances wd)\<rparr>"

text \<open>
  \<open>traverse(node, {pre, post})\<close> of parse5-traverse is synchronous: it visits the
  whole subtree, calling \<open>pre\<close> before a node's children and \<open>post\<close> after them,
  and returns before the first node is handled.
\<close>

fun traverse :: "node \<Rightarrow> world \<Rightarrow> world" where
  "traverse (Element tag attrs childNodes loc) wd = pop (fold traverse childNodes (push tag wd))"
| "traverse n wd = wd"

text \<open>
  The \<open>try\<close> block of a registered custom element: \<open>new ctor()\<close>, then the
  instance is stored in the top entry of the stack. Both a throwing constructor and a
  store into an empty stack end in the \<open>catch\<close>, which logs; in the second case
  the local \<open>instance\<close> has been assigned already.
\<close>

definition construct :: "error + obj \<Rightarrow> world \<Rightarrow> nat option \<times> world" where
  "construct ctor wd =
     (case ctor of
        Inl e \<Rightarrow>
          (None, wd\<lparr>console := console wd @ [(''Exception in custom element constructor'', e)]\<rparr>)
      | Inr ob \<Rightarrow>
          (let r = length (objects wd);
               wd1 = wd\<lparr>objects := objects wd @ [ob]\<rparr>
           in if instances wd1 = [] then
                (Some r, wd1\<lparr>console := console wd1 @
                   [(''Exception in custom element constructor'',
                     TypeError ''cannot set instance of undefined'')]\<rparr>)
              else
                (Some r, wd1\<lparr>instances := butlast (instances wd1) @
                   [(last (instances wd1))\<lparr>inst := Some r\<rparr>]\<rparr>)))"

section \<open>\<open>handleNode\<close>\<close>

text \<open>
  The closure \<open>handleNode\<close> of \<open>renderTemplateResult\<close>. Its first argument
  \<open>rv\<close> stands for the recursive call of \<open>renderValue\<close> (with the fuel that
  is left).
\<close>

type_synonym dispatcher = "val \<Rightarrow> childRenderer option \<Rightarrow> renderInfo \<Rightarrow> world \<Rightarrow> world gen"

definition handleComment ::
  "dispatcher \<Rightarrow> env \<Rightarrow> val template_result \<Rightarrow> string \<Rightarrow> childRenderer option \<Rightarrow> renderInfo \<Rightarrow>
     string \<Rightarrow> location \<Rightarrow> walker \<Rightarrow> walker gen" where
  "handleComment rv env result html cr ri data loc w =
     (if data = marker env then
        andThen (flushTo html (Some (startOffset loc)) w)
          (\<lambda>w. let (v, w) = takeValue result (skipTo (endOffset loc) w)
                in if int (partIndex w) \<le> distributedIndex w then emit (placeholder v) w
                   else inWorld (rv v cr ri) w)
      else ret w)"

text \<open>
  The first part of the element branch, for a node that is not claimed: the slot case,
  the custom element case, or neither. It gives the walker, the local \<open>instance\<close>
  and \<open>writeTag\<close>.
\<close>

definition openElement ::
  "env \<Rightarrow> string \<Rightarrow> childRenderer option \<Rightarrow> renderInfo \<Rightarrow> node \<Rightarrow> string \<Rightarrow> element_location \<Rightarrow>
     walker \<Rightarrow> (walker \<times> nat option \<times> bool) gen" where
  "openElement env html cr ri node tag loc w =
     (if tag = ''slot'' \<and> flattened ri then
        andThen (flushTo html (Some (startOffset (startTag loc))) w)
          (\<lambda>w. andThen
             (case cr of
                None \<Rightarrow> ret w
              | Some childRenderer \<Rightarrow> inWorld (childRenderer (getAttr node ''name'')) w)
             (\<lambda>w. ret (skipTo (endOffset loc) w, None, False)))
      else if CHR ''-'' \<in> set tag then
        (case customElementsGet env tag of
           None \<Rightarrow> ret (w, None, False)
         | Some ctor \<Rightarrow>
             (case construct ctor (wld w) of
                (instance, wd) \<Rightarrow> ret (w\<lparr>wld := wd\<rparr>, instance, True)))
      else ret (w, None, False))"

text \<open>The loop over \<open>node.attrs\<close>, then the hidden count attribute.\<close>

definition handleAttrs ::
  "env \<Rightarrow> val template_result \<Rightarrow> string \<Rightarrow> string \<Rightarrow> element_location \<Rightarrow> nat option \<Rightarrow>
     attribute list \<Rightarrow> walker \<Rightarrow> walker gen" where
  "handleAttrs env result html tag loc instance attrs w =
     andThen (forEach (handleAttr env result html tag loc instance) attrs (w, 0))
       (\<lambda>(w, boundAttrsCount).
          if 0 < boundAttrsCount then emit (litAttr boundAttrsCount) w else ret w)"

text \<open>
  The end of the element branch: the start tag of a registered element is flushed, and
  an element with an instance is rendered by the element renderer, whose child
  renderer's \<open>renderedPartIndex\<close> becomes the distributed index.
\<close>

definition expandElement ::
  "env \<Rightarrow> val template_result \<Rightarrow> string \<Rightarrow> renderInfo \<Rightarrow> node list \<Rightarrow> element_location \<Rightarrow>
     nat option \<Rightarrow> bool \<Rightarrow> walker \<Rightarrow> walker gen" where
  "expandElement env result html ri childNodes loc instance writeTag w =
     andThen
       (if writeTag then flushTo html (Some (endOffset (startTag loc))) w else ret w)
       (\<lambda>w. case instance of
               None \<Rightarrow> ret w
             | Some r \<Rightarrow>
                 andThen
                   (renderElement env r (childNodes, html, result, partIndex w) ri
                      (claimedNodes w, wld w))
                   (\<lambda>(renderedPartIndex, claimed, wd).
                      ret (w\<lparr>distributedIndex := renderedPartIndex,
                             claimedNodes := claimed, wld := wd\<rparr>)))"

definition handleElement ::
  "env \<Rightarrow> val template_result \<Rightarrow> string \<Rightarrow> childRenderer option \<Rightarrow> renderInfo \<Rightarrow>
     node \<Rightarrow> string \<Rightarrow> attribute list \<Rightarrow> node list \<Rightarrow> element_location \<Rightarrow> walker \<Rightarrow> walker gen" where
  "handleElement env result html cr ri node tag attrs childNodes loc w =
     (if node \<in> claimedNodes w then
        andThen (flushTo html (Some (startOffset loc)) w)
          (\<lambda>w. ret (skipTo (endOffset loc) w))
      else
        andThen (openElement env html cr ri node tag loc w)
          (\<lambda>(w, instance, writeTag).
             andThen (handleAttrs env result html tag loc instance attrs w)
               (expandElement env result html ri childNodes loc instance writeTag)))"

definition handleNode ::
  "dispatcher \<Rightarrow> env \<Rightarrow> val template_result \<Rightarrow> string \<Rightarrow> childRenderer option \<Rightarrow> renderInfo \<Rightarrow>
     node \<Rightarrow> walker \<Rightarrow> walker gen" where
  "handleNode rv env result html cr ri node w =
     (case node of
        CommentNode data loc \<Rightarrow> handleComment rv env result html cr ri data loc w
      | TextNode data loc \<Rightarrow> ret w
      | Element tag attrs childNodes loc \<Rightarrow>
          handleElement env result html cr ri node tag attrs childNodes loc w)"

section \<open>\<open>renderTemplateResult\<close> and \<open>renderValue\<close>\<close>

text \<open>
  \<open>getTemplate\<close>: the markup and its parsed tree (the child nodes of the fragment,
  None when that list is undefined). The template cache memoises this pair under the
  identity of \<open>result.strings\<close>.
\<close>

definition getTemplate :: "env \<Rightarrow> val template_result \<Rightarrow> string \<times> node list option" where
  "getTemplate env result = (getHTML result, parseFragment env (getHTML result))"

fun nodeStart :: "node \<Rightarrow> nat" where
  "nodeStart (CommentNode data loc) = startOffset loc"
| "nodeStart (TextNode data loc) = startOffset loc"
| "nodeStart (Element tag attrs childNodes loc) = startOffset loc"

fun nodeEnd :: "node \<Rightarrow> nat" where
  "nodeEnd (CommentNode data loc) = endOffset loc"
| "nodeEnd (TextNode data loc) = endOffset loc"
| "nodeEnd (Element tag attrs childNodes loc) = endOffset loc"

fun isTextNode :: "node \<Rightarrow> bool" where
  "isTextNode (TextNode data loc) = True"
| "isTextNode _ = False"

fun nodeTag :: "node \<Rightarrow> string" where
  "nodeTag (Element tag attrs childNodes loc) = tag"
| "nodeTag _ = []"

definition onWorld :: "(world \<Rightarrow> world) \<Rightarrow> walker \<Rightarrow> walker" where
  "onWorld f w = w\<lparr>wld := f (wld w)\<rparr>"

text \<open>One round of the loop over the top-level nodes.\<close>

definition handleTopNode ::
  "dispatcher \<Rightarrow> env \<Rightarrow> val template_result \<Rightarrow> string \<Rightarrow> childRenderer option \<Rightarrow> renderInfo \<Rightarrow>
     node \<Rightarrow> walker \<Rightarrow> walker gen" where
  "handleTopNode rv env result html cr ri node w0 =
     (let w = (if isElement node then onWorld (push (nodeTag node)) w0 else w0)
      in andThen
           (case slot ri of
              Some sl \<Rightarrow>
                (if isElement node then
                   (if getAttr node ''slot'' = slotName sl then
                      andThen
                        (forEach (handleNode rv env result html cr ri) (depthFirst node)
                           (skipTo (nodeStart node) w))
                        (flushTo html (Some (nodeEnd node)))
                    else ret (skipTo (nodeEnd node) w))
                 else if slotName sl = None \<and> isTextNode node then
                   forEach (handleNode rv env result html cr ri) (depthFirst node) w
                 else ret w)
            | None \<Rightarrow>
                forEach (handleNode rv env result html cr ri) (depthFirst node)
                  (onWorld (traverse node) w))
           (\<lambda>w. ret (if isElement node then onWorld pop w else w)))"

definition finalPartIndexError :: "nat \<Rightarrow> nat \<Rightarrow> error" where
  "finalPartIndexError i n =
     Error (''unexpected final partIndex: '' @ natToString i @ '' !== '' @ natToString n)"

text \<open>The locals as \<open>renderTemplateResult\<close> initialises them.\<close>

definition initialWalker :: "node set \<Rightarrow> world \<Rightarrow> walker" where
  "initialWalker claimed wd =
     \<lparr>partIndex = 0, distributedIndex = - 1, lastOffset = Some 0,
      claimedNodes = claimed, reads = [], wld = wd\<rparr>"

text \<open>
  \<open>renderTemplateResult\<close>. The model returns the locals the call ends with, so that
  theorems can speak about the final \<open>partIndex\<close>.
\<close>

definition renderTemplateResult ::
  "dispatcher \<Rightarrow> env \<Rightarrow> val template_result \<Rightarrow> childRenderer option \<Rightarrow> node set \<Rightarrow> renderInfo \<Rightarrow>
     world \<Rightarrow> walker gen" where
  "renderTemplateResult rv env result cr claimed ri wd =
     (case getTemplate env result of
        (html, ast) \<Rightarrow>
          (case ast of
             None \<Rightarrow> ret (initialWalker claimed wd)
           | Some childNodes \<Rightarrow>
               andThen
                 (forEach (handleTopNode rv env result html cr ri) childNodes
                    (initialWalker claimed wd))
                 (\<lambda>w. andThen (flushTo html None w)
                    (\<lambda>w. if partIndex w \<noteq> length (vals result) then
                            throw (finalPartIndexError (partIndex w) (length (vals result)))
                          else ret w))))"

text \<open>
  \<open>renderValue\<close>, with fuel: each nested call of \<open>renderValue\<close> uses one unit.
  Reading \<open>instance.instance\<close> on an empty stack is a TypeError.
\<close>

fun renderValue ::
  "nat \<Rightarrow> env \<Rightarrow> val \<Rightarrow> childRenderer option \<Rightarrow> renderInfo \<Rightarrow> world \<Rightarrow> world gen" where
  "renderValue 0 env v cr ri wd = ([], OutOfFuel)"
| "renderValue (Suc n) env v cr ri wd =
     (case v of
        VTemplate t \<Rightarrow>
          andThen (emit (openPartDigest (digest t)) wd)
            (\<lambda>wd. andThen
               (andThen (renderTemplateResult (renderValue n env) env t cr {} ri wd)
                  (\<lambda>w. ret (wld w)))
               (emit closePart))
      | _ \<Rightarrow>
          andThen (emit openPart wd)
            (\<lambda>wd. andThen
               (case v of
                  VUndefined \<Rightarrow> ret wd
                | VNull \<Rightarrow> ret wd
                | VRepeat k \<Rightarrow> repeatRender env k cr ri wd
                | VRenderLight \<Rightarrow>
                    (if instances wd = [] then
                       throw (TypeError ''cannot read instance of undefined'')
                     else
                       (case inst (last (instances wd)) of
                          None \<Rightarrow> ret wd
                        | Some r \<Rightarrow> renderValue n env (renderLight env wd r) cr ri wd))
                | VNothing \<Rightarrow> ret wd
                | VArray items \<Rightarrow> forEach (\<lambda>item. renderValue n env item cr ri) items wd
                | _ \<Rightarrow>
                    (case String_of env v of
                       None \<Rightarrow> throw symbolTypeError
                     | Some s \<Rightarrow> emit s wd))
               (emit closePart)))"

text \<open>\<open>render\<close>: a new RenderInfo with no slot request and an empty instance stack.\<close>

definition render ::
  "nat \<Rightarrow> env \<Rightarrow> val \<Rightarrow> childRenderer option \<Rightarrow> bool \<Rightarrow> world \<Rightarrow> world gen" where
  "render n env v cr flat wd =
     renderValue n env v cr \<lparr>slot = None, flattened = flat\<rparr> (wd\<lparr>instances := []\<rparr>)"

section \<open>Notions the properties are stated with\<close>

text \<open>The opening marker \<open>renderValue\<close> yields first for a value.\<close>

fun openFor :: "val \<Rightarrow> chunk" where
  "openFor (VTemplate t) = openPartDigest (digest t)"
| "openFor v = openPart"

text \<open>
  The rounds of a loop that are run, in order: the state each round starts from and
  what the round does. The loop stops after the first round that does not return.
\<close>

fun dispatched :: "('x \<Rightarrow> 's \<Rightarrow> 's gen) \<Rightarrow> 'x list \<Rightarrow> 's \<Rightarrow> ('s \<times> 's gen) list" where
  "dispatched body [] s = []"
| "dispatched body (x # xs) s =
     (s, body x s) #
     (case snd (body x s) of Return s' \<Rightarrow> dispatched body xs s' | _ \<Rightarrow> [])"

text \<open>The walker after the \<open>catch\<close> block has logged a constructor's exception.\<close>

definition logged :: "error \<Rightarrow> walker \<Rightarrow> walker" where
  "logged e w =
     w\<lparr>wld := (wld w)\<lparr>console := console (wld w) @
       [(''Exception in custom element constructor'', e)]\<rparr>\<rparr>"

text \<open>
  What holds of the locals between two steps of a walk: the values read so far are
  those below the part index, each once and in order, and the cursor is defined.
\<close>

definition walkerInv :: "walker \<Rightarrow> bool" where
  "walkerInv w \<longleftrightarrow> reads w = [0..<partIndex w] \<and> lastOffset w \<noteq> None"

text \<open>
  Bracket markers are counted chunk by chunk: a closing marker is the chunk
  \<open><!--/lit-part-->\<close>, an opening marker is the chunk \<open><!--lit-part-->\<close> or a
  chunk \<open><!--lit-part d-->\<close> whose digest \<open>d\<close> has no \<open><\<close>. Every other
  chunk, the placeholder pair among them, is neutral.
\<close>

definition isClose :: "chunk \<Rightarrow> bool" where
  "isClose c \<longleftrightarrow> c = closePart"

definition isOpen :: "chunk \<Rightarrow> bool" where
  "isOpen c \<longleftrightarrow>
     c = openPart \<or>
     (prefix ''<!--lit-part '' c \<and> suffix ''-->'' c \<and> 16 \<le> length c \<and>
      CHR ''<'' \<notin> set (drop 13 (take (length c - 3) c)))"

definition neutral :: "chunk \<Rightarrow> bool" where
  "neutral c \<longleftrightarrow> \<not> isClose c \<and> \<not> isOpen c"

text \<open>
  The nesting depth after a chunk list, from depth \<open>d\<close>; None when a closing
  marker comes at depth 0.
\<close>

fun scanMarkers :: "chunk list \<Rightarrow> nat \<Rightarrow> nat option" where
  "scanMarkers [] d = Some d"
| "scanMarkers (c # cs) d =
     (if isClose c then (case d of 0 \<Rightarrow> None | Suc d' \<Rightarrow> scanMarkers cs d')
      else if isOpen c then scanMarkers cs (Suc d)
      else scanMarkers cs d)"

definition balanced :: "chunk list \<Rightarrow> bool" where
  "balanced cs \<longleftrightarrow> scanMarkers cs 0 = Some 0"

text \<open>
  Content that brings no marker of its own: markup none of whose spans is a marker
  chunk, values whose text is no marker chunk (and whose template digests have no
  \<open><\<close>), and collaborators whose output is balanced.
\<close>

definition neutralMarkup :: "string \<Rightarrow> bool" where
  "neutralMarkup html \<longleftrightarrow> (\<forall>a b. neutral (substring html a b))"

fun goodVal :: "env \<Rightarrow> val \<Rightarrow> bool" where
  "goodVal env (VOther s) = neutral s"
| "goodVal env (VArray vs) = (\<forall>v \<in> set vs. goodVal env v)"
| "goodVal env (VTemplate (TemplateResult ss vs d h)) =
     (CHR ''<'' \<notin> set d \<and> neutralMarkup h \<and> (\<forall>v \<in> set vs. goodVal env v))"
| "goodVal env (VClassMap s) = neutral (functionSource env (VClassMap s))"
| "goodVal env v = True"

definition goodChildRenderer :: "childRenderer option \<Rightarrow> bool" where
  "goodChildRenderer cr \<longleftrightarrow>
     (\<forall>c name wd cs wd'. cr = Some c \<longrightarrow> c name wd = (cs, Return wd') \<longrightarrow> balanced cs)"

definition goodEnv :: "env \<Rightarrow> bool" where
  "goodEnv env \<longleftrightarrow>
     (\<forall>k cr ri wd cs wd'. repeatRender env k cr ri wd = (cs, Return wd') \<longrightarrow> balanced cs) \<and>
     (\<forall>r args ri s cs s'. renderElement env r args ri s = (cs, Return s') \<longrightarrow> balanced cs) \<and>
     (\<forall>wd r. goodVal env (renderLight env wd r))"

definition goodDispatcher :: "env \<Rightarrow> childRenderer option \<Rightarrow> dispatcher \<Rightarrow> bool" where
  "goodDispatcher env cr rv \<longleftrightarrow>
     (\<forall>v ri wd cs wd'. goodVal env v \<longrightarrow> rv v cr ri wd = (cs, Return wd') \<longrightarrow> balanced cs)"

text \<open>
  The bracket markers of the emitted text, that is of the chunks put together: a
  closing marker is an occurrence of \<open><!--/lit-part-->\<close>, an opening marker an
  occurrence of \<open><!--lit-part-->\<close> or of \<open><!--lit-part \<close> followed by a digest.
  \<open>scanText\<close> is the nesting depth after a text, from depth \<open>d\<close>; None when a
  closing marker comes at depth 0.
\<close>

definition closesAt :: "string \<Rightarrow> bool" where
  "closesAt s \<longleftrightarrow> prefix ''<!--/lit-part-->'' s"

definition opensAt :: "string \<Rightarrow> bool" where
  "opensAt s \<longleftrightarrow> prefix ''<!--lit-part-->'' s \<or> prefix ''<!--lit-part '' s"

fun scanText :: "string \<Rightarrow> nat \<Rightarrow> nat option" where
  "scanText [] d = Some d"
| "scanText (c # s) d =
     (if closesAt (c # s) then (case d of 0 \<Rightarrow> None | Suc d' \<Rightarrow> scanText s d')
      else if opensAt (c # s) then scanText s (Suc d)
      else scanText s d)"

fun textOpens :: "string \<Rightarrow> nat" where
  "textOpens [] = 0"
| "textOpens (c # s) = (if opensAt (c # s) then 1 else 0) + textOpens s"

fun textCloses :: "string \<Rightarrow> nat" where
  "textCloses [] = 0"
| "textCloses (c # s) = (if closesAt (c # s) then 1 else 0) + textCloses s"

definition textBalanced :: "string \<Rightarrow> bool" where
  "textBalanced s \<longleftrightarrow> scanText s 0 = Some 0"

text \<open>
  A chunk that cannot bring a marker into the text, alone or together with the chunks
  after it: no marker starts inside it, be it that the marker ends inside the chunk or
  that the chunk ends with the beginning of a marker. A clean chunk is a bracket
  marker, the placeholder pair (an opening marker and the closing marker in one chunk)
  or such a chunk.
\<close>

definition markerStarts :: "string list" where
  "markerStarts = [''<!--/lit-part-->'', ''<!--lit-part-->'', ''<!--lit-part '']"

definition touchesMarker :: "string \<Rightarrow> bool" where
  "touchesMarker x \<longleftrightarrow> list_ex (\<lambda>p. prefix p x \<or> prefix x p) markerStarts"

fun plainChunk :: "chunk \<Rightarrow> bool" where
  "plainChunk [] \<longleftrightarrow> True"
| "plainChunk (a # s) \<longleftrightarrow> \<not> touchesMarker (a # s) \<and> plainChunk s"

definition isPair :: "chunk \<Rightarrow> bool" where
  "isPair c \<longleftrightarrow>
     16 \<le> length c \<and> isOpen (take (length c - 16) c) \<and> drop (length c - 16) c = closePart"

definition cleanChunk :: "chunk \<Rightarrow> bool" where
  "cleanChunk c \<longleftrightarrow> isClose c \<or> isOpen c \<or> isPair c \<or> plainChunk c"

text \<open>
  One dispatcher agrees with another wherever the first does not run out of fuel.
\<close>

definition fuelExtends :: "dispatcher \<Rightarrow> dispatcher \<Rightarrow> bool" where
  "fuelExtends rv rv' \<longleftrightarrow>
     (\<forall>v cr ri wd. snd (rv v cr ri wd) \<noteq> OutOfFuel \<longrightarrow> rv' v cr ri wd = rv v cr ri wd)"

text \<open>
  Fuel that is enough for a value: one unit for each level of nesting of arrays and
  template results, and \<open>L\<close> more for a render-light directive, where \<open>L\<close>
  bounds what the values returned by \<open>renderLight()\<close> need (so these hold no
  render-light directive themselves). The collaborators are assumed to return or throw.
\<close>

fun maxList :: "nat list \<Rightarrow> nat" where
  "maxList [] = 0"
| "maxList (x # xs) = max x (maxList xs)"

fun fuelNeeded :: "nat \<Rightarrow> val \<Rightarrow> nat" where
  "fuelNeeded L (VArray vs) = Suc (maxList (map (fuelNeeded L) vs))"
| "fuelNeeded L (VTemplate (TemplateResult ss vs d h)) = Suc (maxList (1 # map (fuelNeeded L) vs))"
| "fuelNeeded L VRenderLight = Suc L"
| "fuelNeeded L v = 1"

definition finishes :: "'a gen \<Rightarrow> bool" where
  "finishes g \<longleftrightarrow> snd g \<noteq> OutOfFuel"

definition lightBound :: "env \<Rightarrow> nat \<Rightarrow> bool" where
  "lightBound env L \<longleftrightarrow> (\<forall>wd r. fuelNeeded L (renderLight env wd r) \<le> L)"

definition totalChildRenderer :: "childRenderer option \<Rightarrow> bool" where
  "totalChildRenderer cr \<longleftrightarrow> (\<forall>c name wd. cr = Some c \<longrightarrow> finishes (c name wd))"

definition totalEnv :: "env \<Rightarrow> bool" where
  "totalEnv env \<longleftrightarrow>
     (\<forall>k cr ri wd. finishes (repeatRender env k cr ri wd)) \<and>
     (\<forall>r args ri s. finishes (renderElement env r args ri s))"

definition totalOn :: "dispatcher \<Rightarrow> val template_result \<Rightarrow> childRenderer option \<Rightarrow> bool" where
  "totalOn rv result cr \<longleftrightarrow> (\<forall>i ri wd. finishes (rv (valueAt result i) cr ri wd))"

section \<open>Example inputs\<close>

text \<open>
  An environment with no registered element, no reflected property and no directive
  output, and an empty shared state.
\<close>

definition env0 :: env where
  "env0 =
     \<lparr>marker = ''{{lit-7}}'',
      parseFragment = (\<lambda>h. None),
      customElementsGet = (\<lambda>t. None),
      reflectedAttributeName = (\<lambda>t p. None),
      lastAttributeNameExec = (\<lambda>s. None),
      repeatRender = (\<lambda>k cr ri wd. ([], Return wd)),
      renderLight = (\<lambda>wd r. VUndefined),
      renderElement = (\<lambda>r args ri (claimed, wd). ([], Return (- 1, claimed, wd))),
      functionSource = (\<lambda>v. ''function'')\<rparr>"

definition wd0 :: world where
  "wd0 = \<lparr>instances = [], objects = [], console = []\<rparr>"

definition ri0 :: renderInfo where
  "ri0 = \<lparr>slot = None, flattened = False\<rparr>"

text \<open>A template result with one value whose parsed tree has no child-node list.\<close>

definition tOneValue :: "val template_result" where
  "tOneValue = TemplateResult [[], []] [VOther ''x''] ''D1'' ''<!--{{lit-7}}-->''"





text \<open>
  \<open><div class="${'a'}">${'hi'}</div>\<close>: one attribute binding and one child
  binding; \<open>tDivShort\<close> is the same template with one value too few.
\<close>

definition htmlDiv :: string where
  "htmlDiv = ''<div class$lit$='' @ dq @ ''{{lit-7}}'' @ dq @ ''><!--{{lit-7}}--></div>''"

definition nodesDiv :: "node list" where
  "nodesDiv =
     [Element ''div'' [\<lparr>attrName = ''class$lit$'', attrValue = ''{{lit-7}}''\<rparr>]
        [CommentNode ''{{lit-7}}'' \<lparr>startOffset = 28, endOffset = 44\<rparr>]
        \<lparr>startOffset = 0, endOffset = 50, startTag = \<lparr>startOffset = 0, endOffset = 28\<rparr>,
         attrLocations = [(''class$lit$'', \<lparr>startOffset = 5, endOffset = 27\<rparr>)]\<rparr>]"

definition tDiv :: "val template_result" where
  "tDiv = TemplateResult [''<div class='' @ dq, dq @ ''>'', ''</div>'']
     [VOther ''a'', VOther ''hi''] ''D2'' htmlDiv"

definition tDivShort :: "val template_result" where
  "tDivShort = TemplateResult [''<div class='' @ dq, dq @ ''>'', ''</div>'']
     [VOther ''a''] ''D2'' htmlDiv"

text \<open>\<open><div a="${'v'}" id="x"></div>\<close>: a literal attribute after the bound one.\<close>

definition htmlAttrId :: string where
  "htmlAttrId =
     ''<div a$lit$='' @ dq @ ''{{lit-7}}'' @ dq @ '' id='' @ dq @ ''x'' @ dq @ ''></div>''"

definition attrsAttrId :: "attribute list" where
  "attrsAttrId = [\<lparr>attrName = ''a$lit$'', attrValue = ''{{lit-7}}''\<rparr>,
                  \<lparr>attrName = ''id'', attrValue = ''x''\<rparr>]"

definition locAttrId :: element_location where
  "locAttrId =
     \<lparr>startOffset = 0, endOffset = 37, startTag = \<lparr>startOffset = 0, endOffset = 31\<rparr>,
      attrLocations = [(''a$lit$'', \<lparr>startOffset = 5, endOffset = 23\<rparr>),
                       (''id'', \<lparr>startOffset = 24, endOffset = 30\<rparr>)]\<rparr>"

definition tAttrId :: "val template_result" where
  "tAttrId = TemplateResult [''<div a='' @ dq, dq @ '' id='' @ dq @ ''x'' @ dq @ ''></div>'']
     [VOther ''v''] ''D3'' htmlAttrId"

text \<open>A start tag with exactly three bound attributes.\<close>

definition htmlThree :: string where
  "htmlThree =
     ''<p a$lit$='' @ dq @ ''{{lit-7}}'' @ dq @ '' b$lit$='' @ dq @ ''{{lit-7}}'' @ dq @
     '' c$lit$='' @ dq @ ''{{lit-7}}'' @ dq @ ''></p>''"

definition attrsThree :: "attribute list" where
  "attrsThree = [\<lparr>attrName = ''a$lit$'', attrValue = ''{{lit-7}}''\<rparr>,
                 \<lparr>attrName = ''b$lit$'', attrValue = ''{{lit-7}}''\<rparr>,
                 \<lparr>attrName = ''c$lit$'', attrValue = ''{{lit-7}}''\<rparr>]"

definition locThree :: element_location where
  "locThree =
     \<lparr>startOffset = 0, endOffset = 64, startTag = \<lparr>startOffset = 0, endOffset = 60\<rparr>,
      attrLocations = [(''a$lit$'', \<lparr>startOffset = 3, endOffset = 21\<rparr>),
                       (''b$lit$'', \<lparr>startOffset = 22, endOffset = 40\<rparr>),
                       (''c$lit$'', \<lparr>startOffset = 41, endOffset = 59\<rparr>)]\<rparr>"

definition tThree :: "val template_result" where
  "tThree = TemplateResult [''<p a='' @ dq, dq @ '' b='' @ dq, dq @ '' c='' @ dq, dq @ ''></p>'']
     [VOther ''1'', VOther ''2'', VOther ''3''] ''D8'' htmlThree"

text \<open>\<open><x-el></x-el>\<close>, where the constructor registered for \<open>x-el\<close> throws.\<close>

definition htmlXEl :: string where
  "htmlXEl = ''<x-el></x-el>''"

definition locXEl :: element_location where
  "locXEl =
     \<lparr>startOffset = 0, endOffset = 13, startTag = \<lparr>startOffset = 0, endOffset = 6\<rparr>,
      attrLocations = []\<rparr>"

definition tXEl :: "val template_result" where
  "tXEl = TemplateResult [''<x-el></x-el>''] [] ''D4'' htmlXEl"

text \<open>\<open>a<slot name="x">b</slot>c\<close>, and a child renderer that names the slot it is asked for.\<close>

definition htmlSlot :: string where
  "htmlSlot = ''a<slot name='' @ dq @ ''x'' @ dq @ ''>b</slot>c''"

definition locSlot :: element_location where
  "locSlot =
     \<lparr>startOffset = 1, endOffset = 24, startTag = \<lparr>startOffset = 1, endOffset = 16\<rparr>,
      attrLocations = [(''name'', \<lparr>startOffset = 7, endOffset = 15\<rparr>)]\<rparr>"

definition attrsSlot :: "attribute list" where
  "attrsSlot = [\<lparr>attrName = ''name'', attrValue = ''x''\<rparr>]"

definition childrenSlot :: "node list" where
  "childrenSlot = [TextNode ''b'' \<lparr>startOffset = 16, endOffset = 17\<rparr>]"

definition nodesSlot :: "node list" where
  "nodesSlot =
     [TextNode ''a'' \<lparr>startOffset = 0, endOffset = 1\<rparr>,
      Element ''slot'' attrsSlot childrenSlot locSlot,
      TextNode ''c'' \<lparr>startOffset = 24, endOffset = 25\<rparr>]"





text \<open>
  \<open><div><span>${repeat}</span></div>\<close>, where the repeat directive yields the tag
  name on top of the instance stack.
\<close>

definition htmlNested :: string where
  "htmlNested = ''<div><span><!--{{lit-7}}--></span></div>''"

definition nodesNested :: "node list" where
  "nodesNested =
     [Element ''div'' []
        [Element ''span'' [] [CommentNode ''{{lit-7}}'' \<lparr>startOffset = 11, endOffset = 27\<rparr>]
           \<lparr>startOffset = 5, endOffset = 34, startTag = \<lparr>startOffset = 5, endOffset = 11\<rparr>,
            attrLocations = []\<rparr>]
        \<lparr>startOffset = 0, endOffset = 40, startTag = \<lparr>startOffset = 0, endOffset = 5\<rparr>,
         attrLocations = []\<rparr>]"

definition tNested :: "val template_result" where
  "tNested = TemplateResult [''<div><span>'', ''</span></div>''] [VRepeat 0] ''D6'' htmlNested"

text \<open>
  \<open><x-outer><x-inner></x-inner>${renderLight()}</x-outer>\<close>, both elements
  registered, where \<open>renderLight()\<close> of an instance gives the tag of that instance.
\<close>

definition htmlLight :: string where
  "htmlLight = ''<x-outer><x-inner></x-inner><!--{{lit-7}}--></x-outer>''"

definition nodesLight :: "node list" where
  "nodesLight =
     [Element ''x-outer'' []
        [Element ''x-inner'' [] []
           \<lparr>startOffset = 9, endOffset = 28, startTag = \<lparr>startOffset = 9, endOffset = 18\<rparr>,
            attrLocations = []\<rparr>,
         CommentNode ''{{lit-7}}'' \<lparr>startOffset = 28, endOffset = 44\<rparr>]
        \<lparr>startOffset = 0, endOffset = 54, startTag = \<lparr>startOffset = 0, endOffset = 9\<rparr>,
         attrLocations = []\<rparr>]"

definition tLight :: "val template_result" where
  "tLight = TemplateResult [''<x-outer><x-inner></x-inner>'', ''</x-outer>''] [VRenderLight]
     ''D7'' htmlLight"

text \<open>The parser on the example markups, and the environment of the examples.\<close>

definition parseExamples :: "string \<Rightarrow> node list option" where
  "parseExamples h =
     (if h = htmlDiv then Some nodesDiv
      else if h = htmlAttrId then Some [Element ''div'' attrsAttrId [] locAttrId]
      else if h = htmlXEl then Some [Element ''x-el'' [] [] locXEl]
      else if h = htmlSlot then Some nodesSlot
      else if h = htmlNested then Some nodesNested
      else if h = htmlLight then Some nodesLight
      else None)"

definition env1 :: env where
  "env1 = env0\<lparr>
     parseFragment := parseExamples,
     customElementsGet := (\<lambda>t.
        if t = ''x-el'' then Some (Inl (Error ''boom''))
        else if t = ''x-outer'' \<or> t = ''x-inner'' then Some (Inr \<lparr>objTag = t, props = []\<rparr>)
        else None),
     repeatRender := (\<lambda>k cr ri wd.
        ([if instances wd = [] then ''(empty)'' else tagName (last (instances wd))], Return wd)),
     renderLight := (\<lambda>wd r. VOther (objTag (objects wd ! r)))\<rparr>"

text \<open>
  A short template \<open>${'hi'}x\<close> under the marker \<open>M\<close>, and an array that holds it.
\<close>

definition htmlM :: string where
  "htmlM = ''<!--M-->x''"

definition tM :: "val template_result" where
  "tM = TemplateResult [[], ''x''] [VOther ''hi''] ''DM'' htmlM"

definition envM :: env where
  "envM = env0\<lparr>
     marker := ''M'',
     parseFragment := (\<lambda>h.
        if h = htmlM then
          Some [CommentNode ''M'' \<lparr>startOffset = 0, endOffset = 8\<rparr>,
                TextNode ''x'' \<lparr>startOffset = 8, endOffset = 9\<rparr>]
        else None)\<rparr>"

definition vM :: val where
  "vM = VArray [VTemplate tM, VNull]"


text \<open>
  \<open><p a="${'1'}" .data="${'2'}" id="x"></p>\<close>: the last bound attribute is a
  property binding, and \<open>data\<close> is not reflected to an attribute. The parser
  gives attribute names in lower case.
\<close>

definition htmlProp :: string where
  "htmlProp =
     ''<p a$lit$='' @ dq @ ''{{lit-7}}'' @ dq @ '' .data$lit$='' @ dq @ ''{{lit-7}}'' @ dq @
     '' id='' @ dq @ ''x'' @ dq @ ''></p>''"

definition attrsProp :: "attribute list" where
  "attrsProp = [\<lparr>attrName = ''a$lit$'', attrValue = ''{{lit-7}}''\<rparr>,
                \<lparr>attrName = ''.data$lit$'', attrValue = ''{{lit-7}}''\<rparr>,
                \<lparr>attrName = ''id'', attrValue = ''x''\<rparr>]"

definition locProp :: element_location where
  "locProp =
     \<lparr>startOffset = 0, endOffset = 56, startTag = \<lparr>startOffset = 0, endOffset = 52\<rparr>,
      attrLocations = [(''a$lit$'', \<lparr>startOffset = 3, endOffset = 21\<rparr>),
                       (''.data$lit$'', \<lparr>startOffset = 22, endOffset = 44\<rparr>),
                       (''id'', \<lparr>startOffset = 45, endOffset = 51\<rparr>)]\<rparr>"

definition tProp :: "val template_result" where
  "tProp = TemplateResult
     [''<p a='' @ dq, dq @ '' .data='' @ dq, dq @ '' id='' @ dq @ ''x'' @ dq @ ''></p>'']
     [VOther ''1'', VOther ''2''] ''D10'' htmlProp"

text \<open>
  \<open><div .className="${Symbol('s')}"></div>\<close>: a property binding that is
  reflected (to \<open>class\<close>), with a Symbol as its value.
\<close>

definition htmlSym :: string where
  "htmlSym = ''<div .className$lit$='' @ dq @ ''{{lit-7}}'' @ dq @ ''></div>''"

definition nodesSym :: "node list" where
  "nodesSym =
     [Element ''div'' [\<lparr>attrName = ''.classname$lit$'', attrValue = ''{{lit-7}}''\<rparr>] []
        \<lparr>startOffset = 0, endOffset = 39, startTag = \<lparr>startOffset = 0, endOffset = 33\<rparr>,
         attrLocations = [(''.classname$lit$'', \<lparr>startOffset = 5, endOffset = 32\<rparr>)]\<rparr>]"

definition tSym :: "val template_result" where
  "tSym = TemplateResult [''<div .className='' @ dq, dq @ ''></div>''] [VSymbol ''s''] ''D11''
     htmlSym"

text \<open>
  The environment of the property examples: the name before the binding is the
  property name with its dot, and \<open>className\<close> is reflected to \<open>class\<close>.
\<close>

definition envProp :: env where
  "envProp = env0\<lparr>
     parseFragment := (\<lambda>h.
        if h = htmlSym then Some nodesSym
        else if h = htmlProp then Some [Element ''p'' attrsProp [] locProp]
        else None),
     reflectedAttributeName := (\<lambda>t p. if p = ''className'' then Some ''class'' else None),
     lastAttributeNameExec := (\<lambda>s.
        if suffix (''.data='' @ dq) s then Some ''.data''
        else if suffix (''.className='' @ dq) s then Some ''.className''
        else None)\<rparr>"











text \<open>
  An environment whose repeat directive yields the text of a closing marker in two
  chunks.
\<close>

definition envSplit :: env where
  "envSplit = env0\<lparr>repeatRender := (\<lambda>k cr ri wd. ([''<!--/lit'', ''-part-->''], Return wd))\<rparr>"
section \<open>Sequencing lemmas\<close>

lemma andThen_Return [simp]: "andThen (cs, Return a) f = (cs @ fst (f a), snd (f a))"
  by (simp add: andThen_def split: prod.splits)

lemma andThen_Throw [simp]: "andThen (cs, Throw e) f = (cs, Throw e)"
  by (simp add: andThen_def)

lemma andThen_OutOfFuel [simp]: "andThen (cs, OutOfFuel) f = (cs, OutOfFuel)"
  by (simp add: andThen_def)

lemma andThen_ret [simp]: "andThen (ret a) f = f a"
  by (simp add: ret_def)

lemma andThen_emit [simp]: "andThen (emit c a) f = (c # fst (f a), snd (f a))"
  by (simp add: emit_def)

lemma andThen_throw [simp]: "andThen (throw e) f = throw e"
  by (simp add: throw_def)

lemma andThen_ret_right [simp]: "andThen m ret = m"
  by (cases m rule: prod.exhaust; cases "snd m"; simp add: ret_def)

lemma fst_emit [simp]: "fst (emit c a) = [c]"
  by (simp add: emit_def)

lemma snd_emit [simp]: "snd (emit c a) = Return a"
  by (simp add: emit_def)

lemma fst_ret [simp]: "fst (ret a) = []"
  by (simp add: ret_def)

lemma snd_ret [simp]: "snd (ret a) = Return a"
  by (simp add: ret_def)

lemma fst_throw [simp]: "fst (throw e) = []"
  by (simp add: throw_def)

lemma snd_throw [simp]: "snd (throw e) = Throw e"
  by (simp add: throw_def)

lemma andThen_returns:
  "andThen m f = (cs, Return b) \<longleftrightarrow>
     (\<exists>cs1 a cs2. m = (cs1, Return a) \<and> f a = (cs2, Return b) \<and> cs = cs1 @ cs2)"
proof (cases m)
  case (Pair cs1 r)
  show ?thesis
  proof (cases r)
    case (Return a)
    with Pair show ?thesis
      by (cases "f a") auto
  qed (use Pair in auto)
qed

lemma andThen_emit_last:
  "snd (andThen m (emit b)) = Return r \<Longrightarrow>
     fst (andThen m (emit b)) \<noteq> [] \<and> last (fst (andThen m (emit b))) = b"
  by (cases m rule: prod.exhaust; cases "snd m") auto

lemma bracket_returnsE:
  assumes "andThen (emit a s) (\<lambda>s. andThen (m s) (emit b)) = (cs, Return r)"
  obtains xs where "m s = (xs, Return r)" and "cs = a # xs @ [b]"
  using assms
  by (cases "m s" rule: prod.exhaust; cases "snd (m s)") (auto simp: emit_def)

lemma forEach_invariant:
  assumes step: "\<And>x s cs s'. body x s = (cs, Return s') \<Longrightarrow> P s \<Longrightarrow> P s'"
  shows "forEach body xs s = (cs, Return s') \<Longrightarrow> P s \<Longrightarrow> P s'"
proof (induction xs arbitrary: s cs)
  case Nil
  then show ?case by (simp add: ret_def)
next
  case (Cons x xs)
  from Cons.prems(1) obtain cs1 s1 cs2 where
    one: "body x s = (cs1, Return s1)" and rest: "forEach body xs s1 = (cs2, Return s')"
    by (auto simp: andThen_returns)
  from step [OF one Cons.prems(2)] have "P s1" .
  with Cons.IH [OF rest] show ?case .
qed

lemma andThen_assoc: "andThen (andThen m f) g = andThen m (\<lambda>a. andThen (f a) g)"
proof (cases m)
  case (Pair cs out)
  show ?thesis
  proof (cases out)
    case (Return a)
    with Pair show ?thesis
      by (cases "f a" rule: prod.exhaust; cases "snd (f a)") (auto split: prod.splits)
  qed (use Pair in simp_all)
qed

lemma forEach_append:
  "forEach body (xs @ ys) s = andThen (forEach body xs s) (forEach body ys)"
proof (induction xs arbitrary: s)
  case Nil
  show ?case by simp
next
  case (Cons x xs)
  have "forEach body (xs @ ys) = (\<lambda>a. andThen (forEach body xs a) (forEach body ys))"
    by (rule ext) (rule Cons.IH)
  then show ?case
    by (simp add: andThen_assoc)
qed

lemma dispatched_Nil_iff [simp]: "dispatched body xs s = [] \<longleftrightarrow> xs = []"
  by (cases xs) simp_all

lemma dispatched_hd: "xs \<noteq> [] \<Longrightarrow> fst (hd (dispatched body xs s)) = s"
  by (cases xs) simp_all

lemma dispatched_length: "length (dispatched body xs s) \<le> length xs"
proof (induction xs arbitrary: s)
  case Nil
  show ?case by simp
next
  case (Cons x xs)
  then show ?case
    by (cases "snd (body x s)") (simp_all add: le_SucI)
qed

lemma fst_forEach:
  "fst (forEach body xs s) = concat (map (\<lambda>r. fst (snd r)) (dispatched body xs s))"
proof (induction xs arbitrary: s)
  case Nil
  show ?case by simp
next
  case (Cons x xs)
  then show ?case
    by (cases "body x s" rule: prod.exhaust; cases "snd (body x s)") simp_all
qed

lemma snd_forEach:
  "snd (forEach body xs s) =
     (if xs = [] then Return s else snd (snd (last (dispatched body xs s))))"
proof (induction xs arbitrary: s)
  case Nil
  show ?case by simp
next
  case (Cons x xs)
  then show ?case
    by (cases "body x s" rule: prod.exhaust; cases "snd (body x s)") simp_all
qed

lemma dispatched_nth:
  "i < length (dispatched body xs s) \<Longrightarrow>
     snd (dispatched body xs s ! i) = body (xs ! i) (fst (dispatched body xs s ! i))"
proof (induction xs arbitrary: s i)
  case Nil
  then show ?case by simp
next
  case (Cons x xs)
  show ?case
  proof (cases i)
    case 0
    then show ?thesis by simp
  next
    case (Suc j)
    with Cons.prems obtain s' where r: "snd (body x s) = Return s'"
      and j: "j < length (dispatched body xs s')"
      by (cases "snd (body x s)") simp_all
    from Cons.IH [OF j] r Suc show ?thesis by simp
  qed
qed

lemma dispatched_next:
  "i < length (dispatched body xs s) \<Longrightarrow> snd (snd (dispatched body xs s ! i)) = Return s' \<Longrightarrow>
     Suc i < length xs \<Longrightarrow>
     Suc i < length (dispatched body xs s) \<and> fst (dispatched body xs s ! Suc i) = s'"
proof (induction xs arbitrary: s i)
  case Nil
  then show ?case by simp
next
  case (Cons x xs)
  show ?case
  proof (cases i)
    case 0
    with Cons.prems have r: "snd (body x s) = Return s'" and ne: "xs \<noteq> []"
      by auto
    from ne have "0 < length (dispatched body xs s')"
      by simp
    moreover from ne have "fst (dispatched body xs s' ! 0) = s'"
      using dispatched_hd [of xs body s'] by (simp add: hd_conv_nth)
    ultimately show ?thesis
      using 0 r by simp
  next
    case (Suc j)
    with Cons.prems(1) obtain s1 where r: "snd (body x s) = Return s1"
      and j: "j < length (dispatched body xs s1)"
      by (cases "snd (body x s)") simp_all
    from Cons.prems(2) r Suc have "snd (snd (dispatched body xs s1 ! j)) = Return s'"
      by simp
    from Cons.IH [OF j this] Cons.prems(3) Suc r show ?thesis by simp
  qed
qed

lemma dispatched_stop:
  "i < length (dispatched body xs s) \<Longrightarrow> \<forall>s'. snd (snd (dispatched body xs s ! i)) \<noteq> Return s' \<Longrightarrow>
     Suc i = length (dispatched body xs s)"
proof (induction xs arbitrary: s i)
  case Nil
  then show ?case by simp
next
  case (Cons x xs)
  show ?case
  proof (cases i)
    case 0
    with Cons.prems(2) show ?thesis
      by (cases "snd (body x s)") simp_all
  next
    case (Suc j)
    with Cons.prems(1) obtain s1 where r: "snd (body x s) = Return s1"
      and j: "j < length (dispatched body xs s1)"
      by (cases "snd (body x s)") simp_all
    from Cons.prems(2) r Suc have "\<forall>s'. snd (snd (dispatched body xs s1 ! j)) \<noteq> Return s'"
      by simp
    from Cons.IH [OF j this] Suc r show ?thesis by simp
  qed
qed

lemma flushTo_returns:
  "flushTo html offset w = (cs, Return w') \<longleftrightarrow>
     (\<exists>p. lastOffset w = Some p \<and> cs = [substring html (Some p) offset] \<and>
          w' = w\<lparr>lastOffset := offset\<rparr>)"
  by (auto simp: flushTo_def emit_def throw_def split: option.splits)

lemma inWorld_returns:
  "inWorld g w = (cs, Return w') \<longleftrightarrow> (\<exists>wd. g (wld w) = (cs, Return wd) \<and> w' = w\<lparr>wld := wd\<rparr>)"
  by (auto simp: inWorld_def andThen_returns ret_def)

lemma expandElement_plain [simp]:
  "expandElement env result html ri childNodes loc None False = ret"
  "expandElement env result html ri childNodes loc None True =
     flushTo html (Some (endOffset (startTag loc)))"
  by (rule ext, simp add: expandElement_def)+

section \<open>An absent child-node list\<close>

text \<open>
  C10. When the parsed tree has no top-level child-node list, \<open>renderTemplateResult\<close>
  returns right after fetching the template: it yields no chunk, the final flush has
  not run (\<open>lastOffset\<close> is still 0 and no value has been read), and no
  consistency fault is raised, whatever the values of the TemplateResult are.
\<close>

theorem renderTemplateResult_absent_childNodes:
  "parseFragment env (getHTML result) = None \<Longrightarrow>
   renderTemplateResult rv env result cr claimed ri wd =
     ([], Return \<lparr>partIndex = 0, distributedIndex = - 1, lastOffset = Some 0,
                   claimedNodes = claimed, reads = [], wld = wd\<rparr>)"
  by (simp add: renderTemplateResult_def getTemplate_def ret_def initialWalker_def)

theorem renderTemplateResult_absent_childNodes_witness:
  "parseFragment env0 (getHTML tOneValue) = None \<and>
   vals tOneValue \<noteq> [] \<and>
   renderTemplateResult (renderValue 3 env0) env0 tOneValue None {} ri0 wd0 =
     ([], Return \<lparr>partIndex = 0, distributedIndex = - 1, lastOffset = Some 0,
                   claimedNodes = {}, reads = [], wld = wd0\<rparr>)"
proof -
  have absent: "parseFragment env0 (getHTML tOneValue) = None"
    by (simp add: env0_def)
  have "vals tOneValue \<noteq> []"
    by (simp add: tOneValue_def)
  with absent renderTemplateResult_absent_childNodes [OF absent] show ?thesis
    by simp
qed

section \<open>A render-light directive on an empty instance stack\<close>

text \<open>
  C9. Dispatching a render-light directive while the instance stack is empty faults:
  after the opening marker the read of the top entry throws a TypeError, so the value
  is not skipped and the closing marker is never yielded.
\<close>

theorem renderValue_renderLight_empty_stack:
  "instances wd = [] \<Longrightarrow>
   renderValue (Suc n) env VRenderLight cr ri wd =
     ([openPart], Throw (TypeError ''cannot read instance of undefined''))"
  by (simp add: throw_def)

theorem renderValue_renderLight_empty_stack_witness:
  "instances wd0 = [] \<and>
   renderValue 1 env0 VRenderLight None ri0 wd0 =
     ([''<!--lit-part-->''], Throw (TypeError ''cannot read instance of undefined''))"
proof -
  have empty: "instances wd0 = []"
    by (simp add: wd0_def)
  from renderValue_renderLight_empty_stack [OF empty, of 0 env0 None ri0] empty
  show ?thesis
    by (simp add: openPart_def)
qed

section \<open>A marker already consumed by slot distribution\<close>


section \<open>Fuel\<close>

text \<open>
  Fuel only bounds the depth of the nested calls of \<open>renderValue\<close>: a run that
  does not run out of fuel is the same with any larger amount.
\<close>

lemma snd_andThen_fuel:
  "snd (andThen m f) \<noteq> OutOfFuel \<Longrightarrow> snd m \<noteq> OutOfFuel"
  by (cases m rule: prod.exhaust; cases "snd m") auto

lemma andThen_fuel_cong:
  assumes "snd (andThen m f) \<noteq> OutOfFuel"
    and "snd m \<noteq> OutOfFuel \<Longrightarrow> m' = m"
    and "\<And>cs a. m = (cs, Return a) \<Longrightarrow> snd (f a) \<noteq> OutOfFuel \<Longrightarrow> f' a = f a"
  shows "andThen m' f' = andThen m f"
proof -
  from assms(1) have "snd m \<noteq> OutOfFuel" by (rule snd_andThen_fuel)
  with assms(2) have m: "m' = m" by simp
  show ?thesis
  proof (cases m)
    case (Pair cs out)
    show ?thesis
    proof (cases out)
      case (Return a)
      with Pair assms(1) have "snd (f a) \<noteq> OutOfFuel" by simp
      with assms(3) Pair Return have "f' a = f a" by simp
      with m Pair Return show ?thesis by simp
    qed (use m Pair in simp_all)
  qed
qed

lemma forEach_fuel_cong:
  assumes "\<And>x s. x \<in> set xs \<Longrightarrow> snd (body x s) \<noteq> OutOfFuel \<Longrightarrow> body' x s = body x s"
  shows "snd (forEach body xs s) \<noteq> OutOfFuel \<Longrightarrow> forEach body' xs s = forEach body xs s"
  using assms
proof (induction xs arbitrary: s)
  case Nil
  then show ?case by simp
next
  case (Cons x xs)
  from Cons.prems(1) have run: "snd (andThen (body x s) (forEach body xs)) \<noteq> OutOfFuel"
    by simp
  have "andThen (body' x s) (forEach body' xs) = andThen (body x s) (forEach body xs)"
  proof (rule andThen_fuel_cong [OF run])
    assume "snd (body x s) \<noteq> OutOfFuel"
    then show "body' x s = body x s" by (rule Cons.prems(2) [rotated]) simp
  next
    fix cs a
    assume "snd (forEach body xs a) \<noteq> OutOfFuel"
    then show "forEach body' xs a = forEach body xs a"
      by (rule Cons.IH) (rule Cons.prems(2), simp_all)
  qed
  then show ?case by simp
qed

lemma fuelExtendsD:
  "fuelExtends rv rv' \<Longrightarrow> snd (rv v cr ri wd) \<noteq> OutOfFuel \<Longrightarrow> rv' v cr ri wd = rv v cr ri wd"
  by (simp add: fuelExtends_def)

lemma inWorld_fuel_cong:
  assumes "snd (inWorld g w) \<noteq> OutOfFuel"
    and "snd (g (wld w)) \<noteq> OutOfFuel \<Longrightarrow> g' (wld w) = g (wld w)"
  shows "inWorld g' w = inWorld g w"
  unfolding inWorld_def
  by (rule andThen_fuel_cong) (use assms in \<open>simp_all add: inWorld_def\<close>)

lemma handleComment_fuelExtends:
  assumes "fuelExtends rv rv'"
    and "snd (handleComment rv env result html cr ri data loc w) \<noteq> OutOfFuel"
  shows "handleComment rv' env result html cr ri data loc w =
      handleComment rv env result html cr ri data loc w"
proof (cases "data = marker env")
  case False
  then show ?thesis by (simp add: handleComment_def)
next
  case True
  with assms(2) have run: "snd (andThen (flushTo html (Some (startOffset loc)) w)
          (\<lambda>w. let (v, w) = takeValue result (skipTo (endOffset loc) w)
                in if int (partIndex w) \<le> distributedIndex w then emit (placeholder v) w
                   else inWorld (rv v cr ri) w)) \<noteq> OutOfFuel"
    by (simp add: handleComment_def)
  have "andThen (flushTo html (Some (startOffset loc)) w)
          (\<lambda>w. let (v, w) = takeValue result (skipTo (endOffset loc) w)
                in if int (partIndex w) \<le> distributedIndex w then emit (placeholder v) w
                   else inWorld (rv' v cr ri) w) =
        andThen (flushTo html (Some (startOffset loc)) w)
          (\<lambda>w. let (v, w) = takeValue result (skipTo (endOffset loc) w)
                in if int (partIndex w) \<le> distributedIndex w then emit (placeholder v) w
                   else inWorld (rv v cr ri) w)"
  proof (rule andThen_fuel_cong [OF run refl])
    fix cs a
    assume "snd (let (v, w) = takeValue result (skipTo (endOffset loc) a)
                in if int (partIndex w) \<le> distributedIndex w then emit (placeholder v) w
                   else inWorld (rv v cr ri) w) \<noteq> OutOfFuel"
    then show "(let (v, w) = takeValue result (skipTo (endOffset loc) a)
                in if int (partIndex w) \<le> distributedIndex w then emit (placeholder v) w
                   else inWorld (rv' v cr ri) w) =
               (let (v, w) = takeValue result (skipTo (endOffset loc) a)
                in if int (partIndex w) \<le> distributedIndex w then emit (placeholder v) w
                   else inWorld (rv v cr ri) w)"
      by (auto simp: takeValue_def Let_def split: if_splits
          intro!: inWorld_fuel_cong fuelExtendsD [OF assms(1)]
          dest: snd_andThen_fuel [of _ _, unfolded inWorld_def [symmetric]])
  qed
  with True show ?thesis by (simp add: handleComment_def)
qed

lemma handleNode_fuelExtends:
  assumes "fuelExtends rv rv'"
    and "snd (handleNode rv env result html cr ri node w) \<noteq> OutOfFuel"
  shows "handleNode rv' env result html cr ri node w = handleNode rv env result html cr ri node w"
  using assms
  by (cases node) (auto simp: handleNode_def intro: handleComment_fuelExtends)

lemma handleNodes_fuelExtends:
  assumes "fuelExtends rv rv'"
    and "snd (forEach (handleNode rv env result html cr ri) nodes w) \<noteq> OutOfFuel"
  shows "forEach (handleNode rv' env result html cr ri) nodes w =
      forEach (handleNode rv env result html cr ri) nodes w"
  by (rule forEach_fuel_cong [OF _ assms(2)]) (rule handleNode_fuelExtends [OF assms(1)])

lemma handleTopNode_fuelExtends:
  assumes "fuelExtends rv rv'"
    and "snd (handleTopNode rv env result html cr ri node w) \<noteq> OutOfFuel"
  shows "handleTopNode rv' env result html cr ri node w =
      handleTopNode rv env result html cr ri node w"
proof -
  note nodes = handleNodes_fuelExtends [OF assms(1)]
  let ?w = "if isElement node then onWorld (push (nodeTag node)) w else w"
  let ?mid = "\<lambda>rv. (case slot ri of
              Some sl \<Rightarrow>
                (if isElement node then
                   (if getAttr node ''slot'' = slotName sl then
                      andThen
                        (forEach (handleNode rv env result html cr ri) (depthFirst node)
                           (skipTo (nodeStart node) ?w))
                        (flushTo html (Some (nodeEnd node)))
                    else ret (skipTo (nodeEnd node) ?w))
                 else if slotName sl = None \<and> isTextNode node then
                   forEach (handleNode rv env result html cr ri) (depthFirst node) ?w
                 else ret ?w)
            | None \<Rightarrow>
                forEach (handleNode rv env result html cr ri) (depthFirst node)
                  (onWorld (traverse node) ?w))"
  from assms(2) have run: "snd (andThen (?mid rv)
      (\<lambda>w. ret (if isElement node then onWorld pop w else w))) \<noteq> OutOfFuel"
    by (simp add: handleTopNode_def Let_def)
  then have fuel: "snd (?mid rv) \<noteq> OutOfFuel"
    by (rule snd_andThen_fuel)
  have "?mid rv' = ?mid rv"
  proof (cases "slot ri")
    case None
    with fuel show ?thesis by (simp add: nodes)
  next
    case (Some sl)
    with fuel show ?thesis
      by (auto simp: nodes dest!: snd_andThen_fuel intro!: arg_cong2 [where f = andThen])
  qed
  then show ?thesis
    by (simp add: handleTopNode_def Let_def)
qed

lemma renderTemplateResult_fuelExtends:
  assumes "fuelExtends rv rv'"
    and "snd (renderTemplateResult rv env result cr claimed ri wd) \<noteq> OutOfFuel"
  shows "renderTemplateResult rv' env result cr claimed ri wd =
      renderTemplateResult rv env result cr claimed ri wd"
proof (cases "parseFragment env (getHTML result)")
  case None
  then show ?thesis by (simp add: renderTemplateResult_def getTemplate_def)
next
  case (Some childNodes)
  with assms(2) have "snd (forEach (handleTopNode rv env result (getHTML result) cr ri) childNodes
      (initialWalker claimed wd)) \<noteq> OutOfFuel"
    by (auto simp: renderTemplateResult_def getTemplate_def dest: snd_andThen_fuel)
  then have "forEach (handleTopNode rv' env result (getHTML result) cr ri) childNodes
      (initialWalker claimed wd) =
    forEach (handleTopNode rv env result (getHTML result) cr ri) childNodes
      (initialWalker claimed wd)"
    by (rule forEach_fuel_cong [rotated]) (rule handleTopNode_fuelExtends [OF assms(1)])
  with Some show ?thesis by (simp add: renderTemplateResult_def getTemplate_def)
qed

lemma renderValue_fuelExtends_Suc: "fuelExtends (renderValue n env) (renderValue (Suc n) env)"
proof (induction n)
  case 0
  show ?case by (simp add: fuelExtends_def)
next
  case (Suc n)
  note tr = renderTemplateResult_fuelExtends [OF Suc]
  note ex = fuelExtendsD [OF Suc]
  show ?case
    unfolding fuelExtends_def
  proof (intro allI impI)
    fix v cr ri wd
    assume fuel: "snd (renderValue (Suc n) env v cr ri wd) \<noteq> OutOfFuel"
    have bracket: "andThen (emit a wd) (\<lambda>wd. andThen (m' wd) (emit closePart)) =
        andThen (emit a wd) (\<lambda>wd. andThen (m wd) (emit closePart))"
      if "snd (andThen (emit a wd) (\<lambda>wd. andThen (m wd) (emit closePart))) \<noteq> OutOfFuel"
        and "snd (m wd) \<noteq> OutOfFuel \<Longrightarrow> m' wd = m wd" for a m m'
    proof -
      from that(1) have "snd (m wd) \<noteq> OutOfFuel"
        by (cases "m wd" rule: prod.exhaust; cases "snd (m wd)") auto
      with that(2) show ?thesis by simp
    qed
    show "renderValue (Suc (Suc n)) env v cr ri wd = renderValue (Suc n) env v cr ri wd"
    proof (cases v)
      case (VTemplate t)
      have "andThen (emit (openPartDigest (digest t)) wd)
            (\<lambda>wd. andThen
               (andThen (renderTemplateResult (renderValue (Suc n) env) env t cr {} ri wd)
                  (\<lambda>w. ret (wld w)))
               (emit closePart)) =
          andThen (emit (openPartDigest (digest t)) wd)
            (\<lambda>wd. andThen
               (andThen (renderTemplateResult (renderValue n env) env t cr {} ri wd)
                  (\<lambda>w. ret (wld w)))
               (emit closePart))"
      proof (rule bracket)
        from fuel VTemplate show "snd (andThen (emit (openPartDigest (digest t)) wd)
            (\<lambda>wd. andThen
               (andThen (renderTemplateResult (renderValue n env) env t cr {} ri wd)
                  (\<lambda>w. ret (wld w)))
               (emit closePart))) \<noteq> OutOfFuel"
          by (simp only: renderValue.simps val.case simp_thms)
      next
        assume "snd (andThen (renderTemplateResult (renderValue n env) env t cr {} ri wd)
                  (\<lambda>w. ret (wld w))) \<noteq> OutOfFuel"
        then have "snd (renderTemplateResult (renderValue n env) env t cr {} ri wd) \<noteq> OutOfFuel"
          by (rule snd_andThen_fuel)
        from tr [OF this]
        show "andThen (renderTemplateResult (renderValue (Suc n) env) env t cr {} ri wd)
                  (\<lambda>w. ret (wld w)) =
              andThen (renderTemplateResult (renderValue n env) env t cr {} ri wd)
                  (\<lambda>w. ret (wld w))"
          by (simp only:)
      qed
      with VTemplate show ?thesis
        by (simp only: renderValue.simps val.case simp_thms)
    next
      case VRenderLight
      let ?m = "\<lambda>k wd. if instances wd = [] then
                       throw (TypeError ''cannot read instance of undefined'')
                     else
                       (case inst (last (instances wd)) of
                          None \<Rightarrow> ret wd
                        | Some r \<Rightarrow> renderValue k env (renderLight env wd r) cr ri wd)"
      have "andThen (emit openPart wd) (\<lambda>wd. andThen (?m (Suc n) wd) (emit closePart)) =
          andThen (emit openPart wd) (\<lambda>wd. andThen (?m n wd) (emit closePart))"
      proof (rule bracket)
        from fuel VRenderLight
        show "snd (andThen (emit openPart wd) (\<lambda>wd. andThen (?m n wd) (emit closePart))) \<noteq>
            OutOfFuel"
          by (simp only: renderValue.simps val.case simp_thms)
      next
        assume "snd (?m n wd) \<noteq> OutOfFuel"
        then show "?m (Suc n) wd = ?m n wd"
          by (auto simp del: renderValue.simps simp: ex split: option.splits)
      qed
      with VRenderLight show ?thesis
        by (simp only: renderValue.simps val.case simp_thms)
    next
      case (VArray items)
      let ?m = "\<lambda>k. forEach (\<lambda>item. renderValue k env item cr ri) items"
      have "andThen (emit openPart wd) (\<lambda>wd. andThen (?m (Suc n) wd) (emit closePart)) =
          andThen (emit openPart wd) (\<lambda>wd. andThen (?m n wd) (emit closePart))"
      proof (rule bracket)
        from fuel VArray
        show "snd (andThen (emit openPart wd) (\<lambda>wd. andThen (?m n wd) (emit closePart))) \<noteq>
            OutOfFuel"
          by (simp only: renderValue.simps val.case simp_thms)
      next
        assume "snd (?m n wd) \<noteq> OutOfFuel"
        then show "?m (Suc n) wd = ?m n wd"
          by (rule forEach_fuel_cong [rotated]) (rule ex)
      qed
      with VArray show ?thesis
        by (simp only: renderValue.simps val.case simp_thms)
    qed simp_all
  qed
qed

lemma renderValue_fuel_mono:
  assumes "snd (renderValue n env v cr ri wd) \<noteq> OutOfFuel"
  shows "renderValue (n + k) env v cr ri wd = renderValue n env v cr ri wd"
proof (induction k)
  case 0
  show ?case by simp
next
  case (Suc k)
  from assms Suc have "snd (renderValue (n + k) env v cr ri wd) \<noteq> OutOfFuel"
    by simp
  from fuelExtendsD [OF renderValue_fuelExtends_Suc this] Suc show ?case
    by simp
qed


section \<open>Enough fuel gives a result\<close>

lemma finishes_andThen:
  assumes "finishes m"
    and "\<And>cs a. m = (cs, Return a) \<Longrightarrow> finishes (f a)"
  shows "finishes (andThen m f)"
  using assms unfolding finishes_def
  by (cases m rule: prod.exhaust; cases "snd m") auto

lemma finishes_simps [simp]:
  "finishes (emit c a)" "finishes (ret a)" "finishes (throw e)" "finishes (cs, Return a)"
  "finishes (cs, Throw e)" "\<not> finishes (cs, OutOfFuel)"
  by (simp_all add: finishes_def)

lemma finishes_forEach:
  assumes "\<And>x s. x \<in> set xs \<Longrightarrow> finishes (body x s)"
  shows "finishes (forEach body xs s)"
  using assms
proof (induction xs arbitrary: s)
  case Nil
  show ?case by simp
next
  case (Cons x xs)
  show ?case
    unfolding forEach.simps
    by (rule finishes_andThen) (simp_all add: Cons)
qed

lemma finishes_flushTo [simp]: "finishes (flushTo html off w)"
  by (simp add: flushTo_def split: option.splits)

lemma finishes_inWorld: "finishes (g (wld w)) \<Longrightarrow> finishes (inWorld g w)"
  unfolding inWorld_def by (rule finishes_andThen) simp_all

lemma totalOnD: "totalOn rv result cr \<Longrightarrow> finishes (rv (valueAt result i) cr ri wd)"
  by (simp add: totalOn_def)

lemma finishes_handleComment:
  assumes "totalOn rv result cr"
  shows "finishes (handleComment rv env result html cr ri data loc w)"
proof (cases "data = marker env")
  case False
  then show ?thesis by (simp add: handleComment_def)
next
  case True
  have "finishes (let (v, w) = takeValue result (skipTo (endOffset loc) a)
                in if int (partIndex w) \<le> distributedIndex w then emit (placeholder v) w
                   else inWorld (rv v cr ri) w)" for a
    by (simp add: takeValue_def Let_def finishes_inWorld totalOnD [OF assms])
  then have "finishes (andThen (flushTo html (Some (startOffset loc)) w)
          (\<lambda>w. let (v, w) = takeValue result (skipTo (endOffset loc) w)
                in if int (partIndex w) \<le> distributedIndex w then emit (placeholder v) w
                   else inWorld (rv v cr ri) w))"
    by (intro finishes_andThen finishes_flushTo)
  with True show ?thesis by (simp add: handleComment_def)
qed

lemma finishes_openElement:
  assumes "totalChildRenderer cr"
  shows "finishes (openElement env html cr ri node tag loc w)"
proof -
  have provider: "finishes (c name wd)" if "cr = Some c" for c name wd
    using assms that by (simp add: totalChildRenderer_def)
  have "finishes (case cr of
                None \<Rightarrow> ret a
              | Some childRenderer \<Rightarrow> inWorld (childRenderer (getAttr node ''name'')) a)" for a
    by (cases cr) (simp_all add: finishes_inWorld provider)
  then have "finishes (andThen (flushTo html (Some (startOffset (startTag loc))) w)
          (\<lambda>w. andThen
             (case cr of
                None \<Rightarrow> ret w
              | Some childRenderer \<Rightarrow> inWorld (childRenderer (getAttr node ''name'')) w)
             (\<lambda>w. ret (skipTo (endOffset loc) w, None, False))))"
    by (intro finishes_andThen finishes_flushTo) simp_all
  then show ?thesis
    by (auto simp: openElement_def split: option.splits prod.splits)
qed

lemma finishes_handleAttr: "finishes (handleAttr env result html tag loc instance attr s)"
proof (cases s)
  case (Pair w k)
  show ?thesis
  proof (cases "isBound attr")
    case False
    with Pair show ?thesis by (simp add: handleAttr_def)
  next
    case True
    show ?thesis
    proof (cases "map_of (attrLocations loc) (attrName attr)")
      case None
      with True Pair show ?thesis by (simp add: handleAttr_def)
    next
      case (Some l)
      have inner: "finishes (if prefix ''.'' (attrName attr) then
                    (case lastAttributeNameExec env (stringAt result (partIndex a)) of
                       None \<Rightarrow> throw (TypeError ''exec result is null'')
                     | Some g \<Rightarrow>
                         (let propertyName = drop 1 g;
                              (v, w1) = takeValue result a;
                              w2 = (case instance of
                                      None \<Rightarrow> w1
                                    | Some r \<Rightarrow> w1\<lparr>wld := setProperty r propertyName v (wld w1)\<rparr>)
                          in case reflectedAttributeName env tag propertyName of
                               None \<Rightarrow> ret w2
                             | Some reflectedName \<Rightarrow>
                                 (case templateString env v of
                                    None \<Rightarrow> throw symbolTypeError
                                  | Some s \<Rightarrow> emit (reflectedName @ ''='' @ dq @ s @ dq) w2)))
                  else
                    (let attributeName = take (length (attrName attr) - 5) (attrName attr);
                         pieces = splitMarkers (marker env) 0 (attrValue attr)
                     in case fillMarkers env result pieces a of
                          None \<Rightarrow> throw symbolTypeError
                        | Some (s, w1) \<Rightarrow> emit (attributeName @ ''='' @ dq @ s @ dq) w1))" for a
        by (simp add: Let_def split: option.splits prod.splits)
      have "finishes (andThen (emit (substring html (lastOffset w) (Some (startOffset l))) w)
              (\<lambda>w. andThen
                 (if prefix ''.'' (attrName attr) then
                    (case lastAttributeNameExec env (stringAt result (partIndex w)) of
                       None \<Rightarrow> throw (TypeError ''exec result is null'')
                     | Some g \<Rightarrow>
                         (let propertyName = drop 1 g;
                              (v, w1) = takeValue result w;
                              w2 = (case instance of
                                      None \<Rightarrow> w1
                                    | Some r \<Rightarrow> w1\<lparr>wld := setProperty r propertyName v (wld w1)\<rparr>)
                          in case reflectedAttributeName env tag propertyName of
                               None \<Rightarrow> ret w2
                             | Some reflectedName \<Rightarrow>
                                 (case templateString env v of
                                    None \<Rightarrow> throw symbolTypeError
                                  | Some s \<Rightarrow> emit (reflectedName @ ''='' @ dq @ s @ dq) w2)))
                  else
                    (let attributeName = take (length (attrName attr) - 5) (attrName attr);
                         pieces = splitMarkers (marker env) 0 (attrValue attr)
                     in case fillMarkers env result pieces w of
                          None \<Rightarrow> throw symbolTypeError
                        | Some (s, w1) \<Rightarrow> emit (attributeName @ ''='' @ dq @ s @ dq) w1))
                 (\<lambda>w. ret (skipTo (endOffset l) w, Suc k))))"
        by (intro finishes_andThen inner) simp_all
      with True Pair Some show ?thesis by (simp add: handleAttr_def)
    qed
  qed
qed

lemma finishes_handleAttrs: "finishes (handleAttrs env result html tag loc instance attrs w)"
  unfolding handleAttrs_def
  by (intro finishes_andThen finishes_forEach finishes_handleAttr) (simp split: prod.splits)

lemma finishes_expandElement:
  assumes "totalEnv env"
  shows "finishes (expandElement env result html ri childNodes loc instance writeTag w)"
proof -
  have el: "finishes (renderElement env r args ri s)" for r args s
    using assms unfolding totalEnv_def by blast
  have "finishes (case instance of
               None \<Rightarrow> ret a
             | Some r \<Rightarrow>
                 andThen
                   (renderElement env r (childNodes, html, result, partIndex a) ri
                      (claimedNodes a, wld a))
                   (\<lambda>(renderedPartIndex, claimed, wd).
                      ret (a\<lparr>distributedIndex := renderedPartIndex,
                             claimedNodes := claimed, wld := wd\<rparr>)))" for a
    by (cases "instance") (auto intro!: finishes_andThen el)
  then show ?thesis
    unfolding expandElement_def
    by (intro finishes_andThen) simp_all
qed

lemma finishes_handleElement:
  assumes "totalEnv env" and "totalChildRenderer cr"
  shows "finishes (handleElement env result html cr ri node tag attrs childNodes loc w)"
proof (cases "node \<in> claimedNodes w")
  case True
  have "finishes (andThen (flushTo html (Some (startOffset loc)) w)
          (\<lambda>w. ret (skipTo (endOffset loc) w)))"
    by (intro finishes_andThen) simp_all
  with True show ?thesis by (simp add: handleElement_def)
next
  case False
  have "finishes (andThen (handleAttrs env result html tag loc i attrs a)
               (expandElement env result html ri childNodes loc i wt))" for a i wt
    by (intro finishes_andThen finishes_handleAttrs finishes_expandElement [OF assms(1)])
  then have "finishes (andThen (openElement env html cr ri node tag loc w)
          (\<lambda>(w, instance, writeTag).
             andThen (handleAttrs env result html tag loc instance attrs w)
               (expandElement env result html ri childNodes loc instance writeTag)))"
    by (intro finishes_andThen finishes_openElement [OF assms(2)]) (simp split: prod.splits)
  with False show ?thesis by (simp add: handleElement_def)
qed

lemma finishes_handleNode:
  assumes "totalEnv env" and "totalChildRenderer cr" and "totalOn rv result cr"
  shows "finishes (handleNode rv env result html cr ri node w)"
  by (cases node)
     (simp_all add: handleNode_def finishes_handleComment [OF assms(3)]
        finishes_handleElement [OF assms(1,2)])

lemma finishes_handleTopNode:
  assumes "totalEnv env" and "totalChildRenderer cr" and "totalOn rv result cr"
  shows "finishes (handleTopNode rv env result html cr ri node w)"
proof -
  have nodes: "finishes (forEach (handleNode rv env result html cr ri) ns a)" for ns a
    by (intro finishes_forEach finishes_handleNode assms)
  have "finishes (case slot ri of
              Some sl \<Rightarrow>
                (if isElement node then
                   (if getAttr node ''slot'' = slotName sl then
                      andThen
                        (forEach (handleNode rv env result html cr ri) (depthFirst node)
                           (skipTo (nodeStart node) a))
                        (flushTo html (Some (nodeEnd node)))
                    else ret (skipTo (nodeEnd node) a))
                 else if slotName sl = None \<and> isTextNode node then
                   forEach (handleNode rv env result html cr ri) (depthFirst node) a
                 else ret a)
            | None \<Rightarrow>
                forEach (handleNode rv env result html cr ri) (depthFirst node)
                  (onWorld (traverse node) a))" for a
    by (cases "slot ri") (auto intro!: finishes_andThen nodes)
  then show ?thesis
    unfolding handleTopNode_def Let_def
    by (intro finishes_andThen) simp_all
qed

lemma finishes_renderTemplateResult:
  assumes "totalEnv env" and "totalChildRenderer cr" and "totalOn rv result cr"
  shows "finishes (renderTemplateResult rv env result cr claimed ri wd)"
proof (cases "parseFragment env (getHTML result)")
  case None
  then show ?thesis by (simp add: renderTemplateResult_def getTemplate_def)
next
  case (Some childNodes)
  have "finishes (andThen
                 (forEach (handleTopNode rv env result (getHTML result) cr ri) childNodes
                    (initialWalker claimed wd))
                 (\<lambda>w. andThen (flushTo (getHTML result) None w)
                    (\<lambda>w. if partIndex w \<noteq> length (vals result) then
                            throw (finalPartIndexError (partIndex w) (length (vals result)))
                          else ret w)))"
    by (intro finishes_andThen finishes_forEach finishes_handleTopNode assms) simp_all
  with Some show ?thesis by (simp add: renderTemplateResult_def getTemplate_def)
qed

lemma maxList_ge: "x \<in> set xs \<Longrightarrow> x \<le> maxList xs"
  by (induction xs) auto

lemma fuelNeeded_pos: "0 < fuelNeeded L v"
  by (induction L v rule: fuelNeeded.induct) simp_all

lemma fuelNeeded_valueAt: "fuelNeeded L (valueAt t i) < fuelNeeded L (VTemplate t)"
proof (cases t)
  case (TemplateResult ss vs d h)
  show ?thesis
  proof (cases "i < length vs")
    case True
    then have "fuelNeeded L (vs ! i) \<le> maxList (map (fuelNeeded L) vs)"
      by (intro maxList_ge) simp
    with True TemplateResult show ?thesis
      by (simp add: valueAt_def less_Suc_eq_le max.coboundedI2)
  next
    case False
    with TemplateResult show ?thesis
      by (simp add: valueAt_def less_Suc_eq_le)
  qed
qed

lemma finishes_bracket:
  assumes "finishes (m wd)"
  shows "finishes (andThen (emit a wd) (\<lambda>wd. andThen (m wd) (emit closePart)))"
proof -
  from assms have "finishes (andThen (m wd) (emit closePart))"
    by (intro finishes_andThen) simp_all
  then show ?thesis
    by (simp add: finishes_def)
qed

lemma renderValue_total:
  assumes "totalEnv env" and "totalChildRenderer cr" and "lightBound env L"
  shows "fuelNeeded L v \<le> n \<Longrightarrow> finishes (renderValue n env v cr ri wd)"
proof (induction n arbitrary: v ri wd)
  case 0
  with fuelNeeded_pos [of L v] show ?case by simp
next
  case (Suc n)
  show ?case
  proof (cases v)
    case (VTemplate t)
    have "totalOn (renderValue n env) t cr"
      unfolding totalOn_def
    proof (intro allI)
      fix i ri' wd'
      from fuelNeeded_valueAt [of L t i] Suc.prems VTemplate
      have "fuelNeeded L (valueAt t i) \<le> n" by simp
      then show "finishes (renderValue n env (valueAt t i) cr ri' wd')"
        by (rule Suc.IH)
    qed
    then have "finishes (renderTemplateResult (renderValue n env) env t cr {} ri wd)"
      by (rule finishes_renderTemplateResult [OF assms(1,2)])
    then have "finishes (andThen (renderTemplateResult (renderValue n env) env t cr {} ri wd)
                  (\<lambda>w. ret (wld w)))"
      by (intro finishes_andThen) simp_all
    then have "finishes (andThen (emit (openPartDigest (digest t)) wd)
            (\<lambda>wd. andThen
               (andThen (renderTemplateResult (renderValue n env) env t cr {} ri wd)
                  (\<lambda>w. ret (wld w)))
               (emit closePart)))"
      by (rule finishes_bracket)
    with VTemplate show ?thesis
      by (simp only: renderValue.simps val.case simp_thms)
  next
    case VRenderLight
    let ?m = "\<lambda>wd. if instances wd = [] then
                       throw (TypeError ''cannot read instance of undefined'')
                     else
                       (case inst (last (instances wd)) of
                          None \<Rightarrow> ret wd
                        | Some r \<Rightarrow> renderValue n env (renderLight env wd r) cr ri wd)"
    from Suc.prems VRenderLight have "L \<le> n" by simp
    moreover from assms(3) have "fuelNeeded L (renderLight env wd r) \<le> L" for r
      by (simp add: lightBound_def)
    ultimately have "fuelNeeded L (renderLight env wd r) \<le> n" for r
      by (rule order_trans [rotated])
    then have "finishes (renderValue n env (renderLight env wd r) cr ri wd)" for r
      by (rule Suc.IH)
    then have "finishes (?m wd)"
      by (simp del: renderValue.simps split: option.splits)
    then have "finishes (andThen (emit openPart wd) (\<lambda>wd. andThen (?m wd) (emit closePart)))"
      by (rule finishes_bracket)
    with VRenderLight show ?thesis
      by (simp only: renderValue.simps val.case simp_thms)
  next
    case (VArray items)
    have "finishes (renderValue n env x cr ri s)" if "x \<in> set items" for x s
    proof -
      from that have "fuelNeeded L x \<le> maxList (map (fuelNeeded L) items)"
        by (intro maxList_ge) simp
      with Suc.prems VArray have "fuelNeeded L x \<le> n" by simp
      then show ?thesis by (rule Suc.IH)
    qed
    then have "finishes (forEach (\<lambda>item. renderValue n env item cr ri) items wd)"
      by (intro finishes_forEach)
    then have "finishes (andThen (emit openPart wd)
        (\<lambda>wd. andThen (forEach (\<lambda>item. renderValue n env item cr ri) items wd)
           (emit closePart)))"
      by (rule finishes_bracket)
    with VArray show ?thesis
      by (simp only: renderValue.simps val.case simp_thms)
  next
    case (VRepeat k)
    from assms(1) have "finishes (repeatRender env k cr ri wd)"
      by (simp add: totalEnv_def)
    then have "finishes (andThen (emit openPart wd)
        (\<lambda>wd. andThen (repeatRender env k cr ri wd) (emit closePart)))"
      by (rule finishes_bracket)
    with VRepeat show ?thesis
      by (simp only: renderValue.simps val.case simp_thms)
  qed (simp_all add: finishes_def split: option.splits)
qed
section \<open>The brackets of one dispatch\<close>

lemma renderValue_bracketed:
  assumes "renderValue n env v cr ri wd = (cs, Return wd')"
  shows "hd cs = openFor v \<and> last cs = closePart \<and> 2 \<le> length cs"
proof (cases n)
  case 0
  with assms show ?thesis by simp
next
  case (Suc k)
  with assms show ?thesis
    by (cases v) (auto dest!: andThen_emit_last simp: Suc_le_eq)
qed

lemma renderValue_opens:
  "fst (renderValue (Suc n) env v cr ri wd) \<noteq> [] \<and>
   hd (fst (renderValue (Suc n) env v cr ri wd)) = openFor v"
  by (cases v) simp_all

section \<open>Arrays\<close>

text \<open>
  C6, as the code has it. For an array, \<open>renderValue\<close> yields the bare opening
  marker, then dispatches the elements one by one in array order through
  \<open>renderValue\<close>, the first from the state the array was given and each later one
  from the state the one before it returned, and stops at the first element that does
  not return. What an element yields starts with the opening marker that belongs to
  that element and, when the element returns, ends with the closing marker (at least
  two chunks): a bracket pair of its own. The array ends as its last dispatched element
  does, and when all elements have returned the closing marker of the array follows:
  one more pair encloses the elements. With enough fuel the run returns or throws.
\<close>

theorem renderValue_array:
  "fst (renderValue (Suc (Suc n)) env (VArray items) cr ri wd) =
     openPart #
     concat (map (\<lambda>r. fst (snd r)) (dispatched (\<lambda>item. renderValue (Suc n) env item cr ri) items wd)) @
     (case snd (renderValue (Suc (Suc n)) env (VArray items) cr ri wd) of
        Return wd' \<Rightarrow> [closePart]
      | _ \<Rightarrow> [])
   \<and> snd (renderValue (Suc (Suc n)) env (VArray items) cr ri wd) =
       (if items = [] then Return wd
        else snd (snd (last (dispatched (\<lambda>item. renderValue (Suc n) env item cr ri) items wd))))
   \<and> length (dispatched (\<lambda>item. renderValue (Suc n) env item cr ri) items wd) \<le> length items
   \<and> (items \<noteq> [] \<longrightarrow>
        dispatched (\<lambda>item. renderValue (Suc n) env item cr ri) items wd \<noteq> [] \<and>
        fst (hd (dispatched (\<lambda>item. renderValue (Suc n) env item cr ri) items wd)) = wd)
   \<and> (\<forall>i < length (dispatched (\<lambda>item. renderValue (Suc n) env item cr ri) items wd).
        (case dispatched (\<lambda>item. renderValue (Suc n) env item cr ri) items wd ! i of
           (s, cs, out) \<Rightarrow>
             (cs, out) = renderValue (Suc n) env (items ! i) cr ri s \<and>
             cs \<noteq> [] \<and> hd cs = openFor (items ! i) \<and>
             (case out of
                Return s' \<Rightarrow>
                  last cs = closePart \<and> 2 \<le> length cs \<and>
                  (Suc i < length items \<longrightarrow>
                     Suc i < length (dispatched (\<lambda>item. renderValue (Suc n) env item cr ri) items wd) \<and>
                     fst (dispatched (\<lambda>item. renderValue (Suc n) env item cr ri) items wd ! Suc i) = s')
              | _ \<Rightarrow>
                  Suc i = length (dispatched (\<lambda>item. renderValue (Suc n) env item cr ri) items wd))))
   \<and> (totalEnv env \<and> totalChildRenderer cr \<and> lightBound env L \<and>
        fuelNeeded L (VArray items) \<le> Suc (Suc n) \<longrightarrow>
        snd (renderValue (Suc (Suc n)) env (VArray items) cr ri wd) \<noteq> OutOfFuel)"
proof -
  let ?body = "\<lambda>item. renderValue (Suc n) env item cr ri"
  let ?D = "dispatched ?body items wd"
  let ?run = "renderValue (Suc (Suc n)) env (VArray items) cr ri wd"
  have run: "?run = andThen (emit openPart wd)
      (\<lambda>wd. andThen (forEach ?body items wd) (emit closePart))"
    by (simp only: renderValue.simps val.case)
  obtain xs out where loop: "forEach ?body items wd = (xs, out)"
    by (cases "forEach ?body items wd")
  from loop fst_forEach [of ?body items wd] have xs: "xs = concat (map (\<lambda>r. fst (snd r)) ?D)"
    by simp
  from loop snd_forEach [of ?body items wd]
  have out: "out = (if items = [] then Return wd else snd (snd (last ?D)))"
    by simp
  have chunks: "fst ?run = openPart # xs @ (case snd ?run of Return wd' \<Rightarrow> [closePart] | _ \<Rightarrow> [])"
    and outcome: "snd ?run = out"
    unfolding run using loop by (cases out; simp)+
  have each: "case ?D ! i of
           (s, cs, out) \<Rightarrow>
             (cs, out) = renderValue (Suc n) env (items ! i) cr ri s \<and>
             cs \<noteq> [] \<and> hd cs = openFor (items ! i) \<and>
             (case out of
                Return s' \<Rightarrow>
                  last cs = closePart \<and> 2 \<le> length cs \<and>
                  (Suc i < length items \<longrightarrow> Suc i < length ?D \<and> fst (?D ! Suc i) = s')
              | _ \<Rightarrow> Suc i = length ?D)"
    if i: "i < length ?D" for i
  proof -
    obtain s cs o1 where d: "?D ! i = (s, cs, o1)"
      by (cases "?D ! i")
    from dispatched_nth [OF i] d
    have one: "renderValue (Suc n) env (items ! i) cr ri s = (cs, o1)"
      by simp
    from renderValue_opens [of n env "items ! i" cr ri s] one
    have opens: "cs \<noteq> [] \<and> hd cs = openFor (items ! i)"
      by simp
    have rest: "case o1 of
                Return s' \<Rightarrow>
                  last cs = closePart \<and> 2 \<le> length cs \<and>
                  (Suc i < length items \<longrightarrow> Suc i < length ?D \<and> fst (?D ! Suc i) = s')
              | _ \<Rightarrow> Suc i = length ?D"
    proof (cases o1)
      case (Return s')
      with one have "renderValue (Suc n) env (items ! i) cr ri s = (cs, Return s')"
        by simp
      from renderValue_bracketed [OF this]
      have "last cs = closePart \<and> 2 \<le> length cs"
        by simp
      moreover from d Return have "snd (snd (?D ! i)) = Return s'"
        by simp
      from dispatched_next [OF i this]
      have "Suc i < length items \<longrightarrow> Suc i < length ?D \<and> fst (?D ! Suc i) = s'"
        by blast
      ultimately show ?thesis
        using Return by simp
    next
      case (Throw e)
      with d have "\<forall>s'. snd (snd (?D ! i)) \<noteq> Return s'"
        by simp
      from dispatched_stop [OF i this] Throw show ?thesis
        by simp
    next
      case OutOfFuel
      with d have "\<forall>s'. snd (snd (?D ! i)) \<noteq> Return s'"
        by simp
      from dispatched_stop [OF i this] OutOfFuel show ?thesis
        by simp
    qed
    from d one opens rest show ?thesis
      by simp
  qed
  have total: "snd ?run \<noteq> OutOfFuel"
    if "totalEnv env \<and> totalChildRenderer cr \<and> lightBound env L \<and>
        fuelNeeded L (VArray items) \<le> Suc (Suc n)"
  proof -
    from that have "finishes ?run"
      by (intro renderValue_total [where L = L]) simp_all
    then show ?thesis
      unfolding finishes_def .
  qed
  have first: "items \<noteq> [] \<longrightarrow> ?D \<noteq> [] \<and> fst (hd ?D) = wd"
    by (simp add: dispatched_hd)
  from chunks xs have c1: "fst ?run = openPart # concat (map (\<lambda>r. fst (snd r)) ?D) @
      (case snd ?run of Return wd' \<Rightarrow> [closePart] | _ \<Rightarrow> [])"
    by (simp only:)
  from outcome out have c2: "snd ?run = (if items = [] then Return wd else snd (snd (last ?D)))"
    by (simp only:)
  have c3: "length ?D \<le> length items"
    by (rule dispatched_length)
  from each have c5: "\<forall>i < length ?D. case ?D ! i of
           (s, cs, out) \<Rightarrow>
             (cs, out) = renderValue (Suc n) env (items ! i) cr ri s \<and>
             cs \<noteq> [] \<and> hd cs = openFor (items ! i) \<and>
             (case out of
                Return s' \<Rightarrow>
                  last cs = closePart \<and> 2 \<le> length cs \<and>
                  (Suc i < length items \<longrightarrow> Suc i < length ?D \<and> fst (?D ! Suc i) = s')
              | _ \<Rightarrow> Suc i = length ?D)"
    by blast
  from total have c6: "totalEnv env \<and> totalChildRenderer cr \<and> lightBound env L \<and>
        fuelNeeded L (VArray items) \<le> Suc (Suc n) \<longrightarrow> snd ?run \<noteq> OutOfFuel"
    by blast
  from c1 c2 c3 first c5 c6 show ?thesis
    by (intro conjI)
qed

theorem renderValue_array_witness:
  "renderValue 2 env0 (VArray [VOther ''a'', VOther ''b'']) None ri0 wd0 =
     ([''<!--lit-part-->'',
       ''<!--lit-part-->'', ''a'', ''<!--/lit-part-->'',
       ''<!--lit-part-->'', ''b'', ''<!--/lit-part-->'',
       ''<!--/lit-part-->''], Return wd0) \<and>
   dispatched (\<lambda>item. renderValue 1 env0 item None ri0) [VOther ''a'', VOther ''b''] wd0 =
     [(wd0, [''<!--lit-part-->'', ''a'', ''<!--/lit-part-->''], Return wd0),
      (wd0, [''<!--lit-part-->'', ''b'', ''<!--/lit-part-->''], Return wd0)] \<and>
   totalEnv env0 \<and> totalChildRenderer None \<and> lightBound env0 1 \<and>
   fuelNeeded 1 (VArray [VOther ''a'', VOther ''b'']) = 2 \<and>
   snd (renderValue 2 env0 (VArray [VOther ''a'', VOther ''b'']) None ri0 wd0) \<noteq> OutOfFuel"
proof -
  let ?items = "[VOther ''a'', VOther ''b'']"
  have two: "Suc (Suc 0) = 2" and one: "Suc 0 = 1"
    by simp_all
  have run: "renderValue 2 env0 (VArray ?items) None ri0 wd0 =
     ([''<!--lit-part-->'',
       ''<!--lit-part-->'', ''a'', ''<!--/lit-part-->'',
       ''<!--lit-part-->'', ''b'', ''<!--/lit-part-->'',
       ''<!--/lit-part-->''], Return wd0)"
    by code_simp
  have rounds: "dispatched (\<lambda>item. renderValue 1 env0 item None ri0) ?items wd0 =
     [(wd0, [''<!--lit-part-->'', ''a'', ''<!--/lit-part-->''], Return wd0),
      (wd0, [''<!--lit-part-->'', ''b'', ''<!--/lit-part-->''], Return wd0)]"
    by code_simp
  have env: "totalEnv env0"
    by (simp add: totalEnv_def env0_def finishes_def)
  have cr: "totalChildRenderer None"
    by (simp add: totalChildRenderer_def)
  have light: "lightBound env0 1"
    by (simp add: lightBound_def env0_def)
  have fuel: "fuelNeeded 1 (VArray ?items) = 2"
    by simp
  note total = renderValue_array [of 0 env0 ?items None ri0 wd0 1,
      THEN conjunct2, THEN conjunct2, THEN conjunct2, THEN conjunct2, THEN conjunct2]
  from fuel have "fuelNeeded 1 (VArray ?items) \<le> Suc (Suc 0)"
    by simp
  with total env cr light
  have "snd (renderValue (Suc (Suc 0)) env0 (VArray ?items) None ri0 wd0) \<noteq> OutOfFuel"
    by blast
  then have "snd (renderValue 2 env0 (VArray ?items) None ri0 wd0) \<noteq> OutOfFuel"
    unfolding two .
  with run rounds env cr light fuel show ?thesis
    by blast
qed

text \<open>
  The claim as stated fails: the output for the array \<open>['a', 'b']\<close> is not just the
  two bracketed elements one after the other; one more pair encloses them. And an
  element that faults is not wrapped in a pair: for \<open>['a', renderLight()]\<close> on an
  empty instance stack the second element yields its opening marker only, and neither
  its closing marker nor that of the array follows.
\<close>

theorem renderValue_array_counterexample:
  "fst (renderValue 2 env0 (VArray [VOther ''a'', VOther ''b'']) None ri0 wd0) =
     [''<!--lit-part-->''] @
     (fst (renderValue 1 env0 (VOther ''a'') None ri0 wd0) @
      fst (renderValue 1 env0 (VOther ''b'') None ri0 wd0)) @
     [''<!--/lit-part-->''] \<and>
   fst (renderValue 2 env0 (VArray [VOther ''a'', VOther ''b'']) None ri0 wd0) \<noteq>
     fst (renderValue 1 env0 (VOther ''a'') None ri0 wd0) @
     fst (renderValue 1 env0 (VOther ''b'') None ri0 wd0) \<and>
   renderValue 2 env0 (VArray [VOther ''a'', VRenderLight]) None ri0 wd0 =
     ([''<!--lit-part-->'',
       ''<!--lit-part-->'', ''a'', ''<!--/lit-part-->'',
       ''<!--lit-part-->''],
      Throw (TypeError ''cannot read instance of undefined''))"
  by code_simp

section \<open>Bound attributes and the hidden count attribute\<close>

lemma handleAttr_unbound:
  "\<not> isBound attr \<Longrightarrow> handleAttr env result html tag loc instance attr (w, k) = ret (w, k)"
  by (simp add: handleAttr_def)

lemma handleAttr_count:
  assumes "handleAttr env result html tag loc instance attr (w, k) = (cs, Return (w', n))"
  shows "n = (if isBound attr then Suc k else k)"
proof (cases "isBound attr")
  case False
  with assms show ?thesis by (simp add: handleAttr_unbound ret_def)
next
  case True
  with assms show ?thesis
    by (auto simp: handleAttr_def skipTo_def Let_def throw_def
        split: option.splits if_splits prod.splits)
qed

lemma forEach_handleAttr_count:
  "forEach (handleAttr env result html tag loc instance) attrs (w, k) = (cs, Return (w', n)) \<Longrightarrow>
     n = k + length (filter isBound attrs)"
proof (induction attrs arbitrary: w k cs)
  case Nil
  then show ?case by (simp add: ret_def)
next
  case (Cons a attrs)
  from Cons.prems obtain cs1 w1 k1 cs2 where
    step: "handleAttr env result html tag loc instance a (w, k) = (cs1, Return (w1, k1))"
    and rest: "forEach (handleAttr env result html tag loc instance) attrs (w1, k1) =
        (cs2, Return (w', n))"
    by (auto simp: andThen_returns)
  from handleAttr_count [OF step] Cons.IH [OF rest] show ?case by simp
qed

lemma forEach_handleAttr_unbound:
  "\<forall>a \<in> set attrs. \<not> isBound a \<Longrightarrow>
     forEach (handleAttr env result html tag loc instance) attrs (w, k) = ret (w, k)"
  by (induction attrs) (simp_all add: handleAttr_unbound)

lemma handleAttrs_unbound:
  "\<forall>a \<in> set attrs. \<not> isBound a \<Longrightarrow>
     handleAttrs env result html tag loc instance attrs w = ret w"
  by (simp add: handleAttrs_def forEach_handleAttr_unbound)

lemma handleAttr_bound:
  assumes "handleAttr env result html tag loc instance attr (w, k) = (cs, Return (w', n))"
    and "isBound attr"
  shows "\<exists>l. map_of (attrLocations loc) (attrName attr) = Some l \<and>
      lastOffset w' = Some (endOffset l) \<and>
      hd cs = substring html (lastOffset w) (Some (startOffset l)) \<and>
      (length cs = 1 \<or> length cs = 2)"
  using assms
  by (auto simp: handleAttr_def skipTo_def Let_def throw_def emit_def ret_def andThen_returns
      split: option.splits if_splits prod.splits)

lemma filter_isBound_last:
  assumes "filter isBound attrs \<noteq> []"
  shows "\<exists>pre post. attrs = pre @ last (filter isBound attrs) # post \<and>
      isBound (last (filter isBound attrs)) \<and> (\<forall>a \<in> set post. \<not> isBound a)"
proof -
  from assms have "\<exists>a \<in> set attrs. isBound a"
    by (auto simp: filter_empty_conv)
  then obtain pre a post where split: "attrs = pre @ a # post" and a: "isBound a"
    and post: "\<forall>b \<in> set post. \<not> isBound b"
    by (auto dest!: split_list_last_prop)
  from post have "filter isBound post = []"
    by (simp add: filter_empty_conv)
  with split a have "last (filter isBound attrs) = a"
    by simp
  with split have "attrs = pre @ last (filter isBound attrs) # post"
    by (simp only:)
  moreover from a \<open>last (filter isBound attrs) = a\<close> have "isBound (last (filter isBound attrs))"
    by (simp only:)
  ultimately show ?thesis
    using post by blast
qed

text \<open>
  C7, as the code has it. When the loop over the attributes of a start tag returns,
  having yielded the chunks \<open>cs\<close>, its count \<open>n\<close> is the number of attributes
  whose name ends in \<open>$lit$\<close>, and the attribute handling as a whole yields
  \<open>cs\<close> followed by exactly one more chunk, \<open> __lit-attr="n"\<close>, when \<open>n\<close> is
  positive, and nothing at all when \<open>n\<close> is 0. The count attribute is yielded
  right after the loop: \<open>cs\<close> ends with what the last bound attribute yields (the
  literal markup before it and then, unless it is a property that is not reflected,
  its rewritten text), and the cursor stands at the end of that attribute, so the rest
  of the start tag, with any literal attribute after the last bound one, is flushed
  after the count attribute.
\<close>

theorem handleAttrs_count:
  assumes "forEach (handleAttr env result html tag loc instance) attrs (w, 0) =
      (cs, Return (w', n))"
  shows "n = length (filter isBound attrs) \<and>
     handleAttrs env result html tag loc instance attrs w =
       (cs @ (if 0 < n then ['' __lit-attr='' @ dq @ natToString n @ dq] else []), Return w') \<and>
     (n = 0 \<longrightarrow> cs = [] \<and> w' = w) \<and>
     (0 < n \<longrightarrow>
        (\<exists>l cs1 w1 k1.
           map_of (attrLocations loc) (attrName (last (filter isBound attrs))) = Some l \<and>
           cs = cs1 @ fst (handleAttr env result html tag loc instance
                  (last (filter isBound attrs)) (w1, k1)) \<and>
           hd (fst (handleAttr env result html tag loc instance
                  (last (filter isBound attrs)) (w1, k1))) =
             substring html (lastOffset w1) (Some (startOffset l)) \<and>
           (length (fst (handleAttr env result html tag loc instance
                  (last (filter isBound attrs)) (w1, k1))) = 1 \<or>
            length (fst (handleAttr env result html tag loc instance
                  (last (filter isBound attrs)) (w1, k1))) = 2) \<and>
           lastOffset w' = Some (endOffset l) \<and>
           flushTo html (Some (endOffset (startTag loc))) w' =
             ([substring html (Some (endOffset l)) (Some (endOffset (startTag loc)))],
              Return (w'\<lparr>lastOffset := Some (endOffset (startTag loc))\<rparr>))))"
proof -
  let ?h = "handleAttr env result html tag loc instance"
  from forEach_handleAttr_count [OF assms] have n: "n = length (filter isBound attrs)"
    by simp
  from assms have whole: "handleAttrs env result html tag loc instance attrs w =
       (cs @ (if 0 < n then ['' __lit-attr='' @ dq @ natToString n @ dq] else []), Return w')"
    by (simp add: handleAttrs_def litAttr_def)
  have none: "cs = [] \<and> w' = w" if "n = 0"
  proof -
    from that n have "\<forall>a \<in> set attrs. \<not> isBound a"
      by (simp add: filter_empty_conv)
    from forEach_handleAttr_unbound [OF this, of env result html tag loc "instance" w 0] assms
    show ?thesis
      by (simp add: ret_def)
  qed
  have some: "\<exists>l cs1 w1 k1.
           map_of (attrLocations loc) (attrName (last (filter isBound attrs))) = Some l \<and>
           cs = cs1 @ fst (?h (last (filter isBound attrs)) (w1, k1)) \<and>
           hd (fst (?h (last (filter isBound attrs)) (w1, k1))) =
             substring html (lastOffset w1) (Some (startOffset l)) \<and>
           (length (fst (?h (last (filter isBound attrs)) (w1, k1))) = 1 \<or>
            length (fst (?h (last (filter isBound attrs)) (w1, k1))) = 2) \<and>
           lastOffset w' = Some (endOffset l) \<and>
           flushTo html (Some (endOffset (startTag loc))) w' =
             ([substring html (Some (endOffset l)) (Some (endOffset (startTag loc)))],
              Return (w'\<lparr>lastOffset := Some (endOffset (startTag loc))\<rparr>))"
    if "0 < n"
  proof -
    let ?a = "last (filter isBound attrs)"
    from that n have "filter isBound attrs \<noteq> []"
      by auto
    from filter_isBound_last [OF this] obtain pre post where
      split: "attrs = pre @ ?a # post" and a: "isBound ?a"
      and post: "\<forall>b \<in> set post. \<not> isBound b"
      by blast
    from assms split have "andThen (forEach ?h pre (w, 0)) (forEach ?h (?a # post)) =
        (cs, Return (w', n))"
      by (metis forEach_append)
    then obtain cs1 s1 cs2 where
      pre: "forEach ?h pre (w, 0) = (cs1, Return s1)"
      and rest: "forEach ?h (?a # post) s1 = (cs2, Return (w', n))"
      and cs: "cs = cs1 @ cs2"
      by (auto simp: andThen_returns)
    obtain w1 k1 where s1: "s1 = (w1, k1)"
      by (cases s1)
    from rest s1 obtain cs3 s2 cs4 where
      one: "?h ?a (w1, k1) = (cs3, Return s2)"
      and tail: "forEach ?h post s2 = (cs4, Return (w', n))"
      and cs2: "cs2 = cs3 @ cs4"
      by (auto simp: andThen_returns)
    obtain w2 k2 where s2: "s2 = (w2, k2)"
      by (cases s2)
    from forEach_handleAttr_unbound [OF post, of env result html tag loc "instance" w2 k2]
      tail s2
    have "cs4 = []" and w2: "w2 = w'"
      by (simp_all add: ret_def)
    with cs cs2 one have chunks: "cs = cs1 @ fst (?h ?a (w1, k1))"
      by simp
    from one s2 w2 have "?h ?a (w1, k1) = (cs3, Return (w', k2))"
      by simp
    from handleAttr_bound [OF this a] obtain l where
      l: "map_of (attrLocations loc) (attrName ?a) = Some l"
      and cursor: "lastOffset w' = Some (endOffset l)"
      and gap: "hd cs3 = substring html (lastOffset w1) (Some (startOffset l))"
      and len: "length cs3 = 1 \<or> length cs3 = 2"
      by blast
    from cursor have "flushTo html (Some (endOffset (startTag loc))) w' =
             ([substring html (Some (endOffset l)) (Some (endOffset (startTag loc)))],
              Return (w'\<lparr>lastOffset := Some (endOffset (startTag loc))\<rparr>))"
      by (simp add: flushTo_def emit_def)
    with l chunks gap len cursor one show ?thesis
      by (intro exI [of _ l] exI [of _ cs1] exI [of _ w1] exI [of _ k1]) simp
  qed
  from n whole none some show ?thesis
    by blast
qed

theorem handleAttrs_count_witness:
  "forEach (handleAttr env1 tThree htmlThree ''p'' locThree None) attrsThree
      (initialWalker {} wd0, 0) =
     ([''<p '', ''a='' @ dq @ ''1'' @ dq, '' '', ''b='' @ dq @ ''2'' @ dq,
       '' '', ''c='' @ dq @ ''3'' @ dq],
      Return ((initialWalker {} wd0)\<lparr>partIndex := 3, lastOffset := Some 59,
                reads := [0, 1, 2]\<rparr>, 3)) \<and>
   length (filter isBound attrsThree) = 3 \<and>
   handleAttrs env1 tThree htmlThree ''p'' locThree None attrsThree (initialWalker {} wd0) =
     ([''<p '', ''a='' @ dq @ ''1'' @ dq, '' '', ''b='' @ dq @ ''2'' @ dq,
       '' '', ''c='' @ dq @ ''3'' @ dq, '' __lit-attr='' @ dq @ ''3'' @ dq],
      Return ((initialWalker {} wd0)\<lparr>partIndex := 3, lastOffset := Some 59,
                reads := [0, 1, 2]\<rparr>)) \<and>
   handleAttrs env1 tXEl htmlXEl ''x-el'' locXEl None [] (initialWalker {} wd0) =
     ([], Return (initialWalker {} wd0)) \<and>
   forEach (handleAttr envProp tProp htmlProp ''p'' locProp None) attrsProp
      (initialWalker {} wd0, 0) =
     ([''<p '', ''a='' @ dq @ ''1'' @ dq, '' ''],
      Return ((initialWalker {} wd0)\<lparr>partIndex := 2, lastOffset := Some 44,
                reads := [0, 1]\<rparr>, 2)) \<and>
   handleAttrs envProp tProp htmlProp ''p'' locProp None attrsProp (initialWalker {} wd0) =
     ([''<p '', ''a='' @ dq @ ''1'' @ dq, '' '', '' __lit-attr='' @ dq @ ''2'' @ dq],
      Return ((initialWalker {} wd0)\<lparr>partIndex := 2, lastOffset := Some 44,
                reads := [0, 1]\<rparr>)) \<and>
   fst (flushTo htmlProp (Some (endOffset (startTag locProp)))
          ((initialWalker {} wd0)\<lparr>partIndex := 2, lastOffset := Some 44, reads := [0, 1]\<rparr>)) =
     ['' id='' @ dq @ ''x'' @ dq @ ''>'']"
proof -
  have loop: "forEach (handleAttr env1 tThree htmlThree ''p'' locThree None) attrsThree
      (initialWalker {} wd0, 0) =
     ([''<p '', ''a='' @ dq @ ''1'' @ dq, '' '', ''b='' @ dq @ ''2'' @ dq,
       '' '', ''c='' @ dq @ ''3'' @ dq],
      Return ((initialWalker {} wd0)\<lparr>partIndex := 3, lastOffset := Some 59,
                reads := [0, 1, 2]\<rparr>, 3))"
    by code_simp
  have three: "natToString 3 = ''3''"
    by code_simp
  have two: "natToString 2 = ''2''"
    by code_simp
  have none: "forEach (handleAttr env1 tXEl htmlXEl ''x-el'' locXEl None) []
      (initialWalker {} wd0, 0) = ([], Return (initialWalker {} wd0, 0))"
    by (simp add: ret_def)
  have qloop: "forEach (handleAttr envProp tProp htmlProp ''p'' locProp None) attrsProp
      (initialWalker {} wd0, 0) =
     ([''<p '', ''a='' @ dq @ ''1'' @ dq, '' ''],
      Return ((initialWalker {} wd0)\<lparr>partIndex := 2, lastOffset := Some 44,
                reads := [0, 1]\<rparr>, 2))"
    by code_simp
  have rest: "fst (flushTo htmlProp (Some (endOffset (startTag locProp)))
          ((initialWalker {} wd0)\<lparr>partIndex := 2, lastOffset := Some 44, reads := [0, 1]\<rparr>)) =
     ['' id='' @ dq @ ''x'' @ dq @ ''>'']"
    by code_simp
  from handleAttrs_count [OF loop] have c3: "length (filter isBound attrsThree) = 3"
    and w3: "handleAttrs env1 tThree htmlThree ''p'' locThree None attrsThree
        (initialWalker {} wd0) =
     ([''<p '', ''a='' @ dq @ ''1'' @ dq, '' '', ''b='' @ dq @ ''2'' @ dq,
       '' '', ''c='' @ dq @ ''3'' @ dq, '' __lit-attr='' @ dq @ ''3'' @ dq],
      Return ((initialWalker {} wd0)\<lparr>partIndex := 3, lastOffset := Some 59,
                reads := [0, 1, 2]\<rparr>))"
    by (simp_all add: three)
  from handleAttrs_count [OF none]
  have w0: "handleAttrs env1 tXEl htmlXEl ''x-el'' locXEl None [] (initialWalker {} wd0) =
     ([], Return (initialWalker {} wd0))"
    by simp
  from handleAttrs_count [OF qloop]
  have w2: "handleAttrs envProp tProp htmlProp ''p'' locProp None attrsProp
        (initialWalker {} wd0) =
     ([''<p '', ''a='' @ dq @ ''1'' @ dq, '' '', '' __lit-attr='' @ dq @ ''2'' @ dq],
      Return ((initialWalker {} wd0)\<lparr>partIndex := 2, lastOffset := Some 44,
                reads := [0, 1]\<rparr>))"
    by (simp add: two)
  from loop c3 w3 w0 qloop w2 rest show ?thesis
    by (simp only: simp_thms)
qed

text \<open>
  The claim as stated fails on the position: for \<open><div a="${'v'}" id="x"></div>\<close>
  the count attribute comes before the literal attribute \<open>id\<close>, not after the tag's
  attributes. It fails as well when the loop does not return: a Symbol as the value of
  a reflected property is a TypeError, after which no count attribute is yielded. And
  an element that slot distribution has claimed is skipped with its attributes.
\<close>

theorem litAttr_position_counterexample:
  "fst (render 2 env1 (VTemplate tAttrId) None False wd0) =
     [''<!--lit-part D3-->'', ''<div '', ''a='' @ dq @ ''v'' @ dq,
      '' __lit-attr='' @ dq @ ''1'' @ dq,
      '' id='' @ dq @ ''x'' @ dq @ ''></div>'', ''<!--/lit-part-->''] \<and>
   concat (fst (render 2 env1 (VTemplate tAttrId) None False wd0)) \<noteq>
     ''<!--lit-part D3--><div a='' @ dq @ ''v'' @ dq @ '' id='' @ dq @ ''x'' @ dq @
     '' __lit-attr='' @ dq @ ''1'' @ dq @ ''></div><!--/lit-part-->'' \<and>
   render 2 envProp (VTemplate tSym) None False wd0 =
     ([''<!--lit-part D11-->'', ''<div ''],
      Throw (TypeError ''Cannot convert a Symbol value to a string'')) \<and>
   handleNode (renderValue 1 env1) env1 tAttrId htmlAttrId None ri0
       (Element ''div'' attrsAttrId [] locAttrId)
       (initialWalker {Element ''div'' attrsAttrId [] locAttrId} wd0) =
     ([[]], Return ((initialWalker {Element ''div'' attrsAttrId [] locAttrId} wd0)
                      \<lparr>lastOffset := Some 37\<rparr>))"
  by code_simp

section \<open>A constructor that throws\<close>

text \<open>
  C8. When the constructor registered for a custom element throws, the exception is
  caught and logged, attribute handling runs with no instance, the start tag is
  flushed and the element renderer is not called: the element is rendered as a plain
  tag and the walk goes on. With no bound attribute the whole step yields the markup
  up to the end of the start tag and returns.
\<close>

theorem handleNode_constructor_throws:
  assumes "CHR ''-'' \<in> set tag"
    and "customElementsGet env tag = Some (Inl e)"
    and "Element tag attrs childNodes loc \<notin> claimedNodes w"
  shows "handleNode rv env result html cr ri (Element tag attrs childNodes loc) w =
       andThen (handleAttrs env result html tag loc None attrs (logged e w))
         (flushTo html (Some (endOffset (startTag loc))))
     \<and> ((\<forall>a \<in> set attrs. \<not> isBound a) \<and> lastOffset w = Some p \<longrightarrow>
          handleNode rv env result html cr ri (Element tag attrs childNodes loc) w =
            ([substring html (Some p) (Some (endOffset (startTag loc)))],
             Return ((logged e w)\<lparr>lastOffset := Some (endOffset (startTag loc))\<rparr>)))"
proof -
  from assms(1) have "tag \<noteq> ''slot''" by auto
  with assms have step:
    "handleNode rv env result html cr ri (Element tag attrs childNodes loc) w =
       andThen (handleAttrs env result html tag loc None attrs (logged e w))
         (flushTo html (Some (endOffset (startTag loc))))"
    by (simp add: handleNode_def handleElement_def openElement_def construct_def logged_def)
  moreover have "handleNode rv env result html cr ri (Element tag attrs childNodes loc) w =
            ([substring html (Some p) (Some (endOffset (startTag loc)))],
             Return ((logged e w)\<lparr>lastOffset := Some (endOffset (startTag loc))\<rparr>))"
    if "\<forall>a \<in> set attrs. \<not> isBound a" and "lastOffset w = Some p"
    using that step
    by (simp add: handleAttrs_unbound flushTo_def logged_def emit_def)
  ultimately show ?thesis by blast
qed

theorem handleNode_constructor_throws_witness:
  "CHR ''-'' \<in> set ''x-el'' \<and>
   customElementsGet env1 ''x-el'' = Some (Inl (Error ''boom'')) \<and>
   Element ''x-el'' [] [] locXEl \<notin> claimedNodes (initialWalker {} wd0) \<and>
   handleNode (renderValue 1 env1) env1 tXEl htmlXEl None ri0 (Element ''x-el'' [] [] locXEl)
       (initialWalker {} wd0) =
     ([''<x-el>''],
      Return ((initialWalker {} wd0)\<lparr>lastOffset := Some 6,
        wld := wd0\<lparr>console := [(''Exception in custom element constructor'', Error ''boom'')]\<rparr>\<rparr>)) \<and>
   render 2 env1 (VTemplate tXEl) None False wd0 =
     ([''<!--lit-part D4-->'', ''<x-el>'', ''</x-el>'', ''<!--/lit-part-->''],
      Return (wd0\<lparr>console := [(''Exception in custom element constructor'', Error ''boom'')]\<rparr>))"
proof -
  have dash: "CHR ''-'' \<in> set ''x-el''"
    by simp
  have ctor: "customElementsGet env1 ''x-el'' = Some (Inl (Error ''boom''))"
    by (simp add: env1_def)
  have unclaimed: "Element ''x-el'' [] [] locXEl \<notin> claimedNodes (initialWalker {} wd0)"
    by (simp add: initialWalker_def)
  have whole: "render 2 env1 (VTemplate tXEl) None False wd0 =
     ([''<!--lit-part D4-->'', ''<x-el>'', ''</x-el>'', ''<!--/lit-part-->''],
      Return (wd0\<lparr>console := [(''Exception in custom element constructor'', Error ''boom'')]\<rparr>))"
    by code_simp
  have at0: "(\<forall>a \<in> set []. \<not> isBound a) \<and> lastOffset (initialWalker {} wd0) = Some 0"
    by (simp add: initialWalker_def)
  from handleNode_constructor_throws [OF dash ctor unclaimed, THEN conjunct2, rule_format, OF at0]
  have "handleNode (renderValue 1 env1) env1 tXEl htmlXEl None ri0 (Element ''x-el'' [] [] locXEl)
       (initialWalker {} wd0) =
     ([substring htmlXEl (Some 0) (Some (endOffset (startTag locXEl)))],
      Return ((logged (Error ''boom'') (initialWalker {} wd0))
                \<lparr>lastOffset := Some (endOffset (startTag locXEl))\<rparr>))" .
  moreover have "substring htmlXEl (Some 0) (Some (endOffset (startTag locXEl))) = ''<x-el>''"
    by (simp add: htmlXEl_def locXEl_def substring_def)
  moreover have "(logged (Error ''boom'') (initialWalker {} wd0))
        \<lparr>lastOffset := Some (endOffset (startTag locXEl))\<rparr> =
      (initialWalker {} wd0)\<lparr>lastOffset := Some 6,
        wld := wd0\<lparr>console := [(''Exception in custom element constructor'', Error ''boom'')]\<rparr>\<rparr>"
    by (simp add: logged_def initialWalker_def wd0_def locXEl_def)
  ultimately have "handleNode (renderValue 1 env1) env1 tXEl htmlXEl None ri0
       (Element ''x-el'' [] [] locXEl) (initialWalker {} wd0) =
     ([''<x-el>''],
      Return ((initialWalker {} wd0)\<lparr>lastOffset := Some 6,
        wld := wd0\<lparr>console := [(''Exception in custom element constructor'', Error ''boom'')]\<rparr>\<rparr>))"
    by simp
  with dash ctor unclaimed whole show ?thesis
    by blast
qed

section \<open>A slot element under flattening\<close>




section \<open>Value conservation\<close>

lemma walkerInv_flushTo:
  "flushTo html (Some off) w = (cs, Return w') \<Longrightarrow> walkerInv w \<Longrightarrow> walkerInv w'"
  by (auto simp: flushTo_returns walkerInv_def)

lemma walkerInv_wld [simp]: "walkerInv (w\<lparr>wld := wd\<rparr>) = walkerInv w"
  by (simp add: walkerInv_def)

lemma walkerInv_onWorld [simp]: "walkerInv (onWorld f w) = walkerInv w"
  by (simp add: onWorld_def)

lemma walkerInv_initialWalker [simp]: "walkerInv (initialWalker claimed wd)"
  by (simp add: walkerInv_def initialWalker_def)

lemma walkerInv_inWorld:
  "inWorld g w = (cs, Return w') \<Longrightarrow> walkerInv w \<Longrightarrow> walkerInv w'"
  by (auto simp: inWorld_returns)

lemma walkerInv_takeValue:
  "takeValue result w = (v, w') \<Longrightarrow> walkerInv w \<Longrightarrow> walkerInv w'"
  by (auto simp: takeValue_def walkerInv_def)

lemma walkerInv_handleComment:
  assumes "handleComment rv env result html cr ri data loc w = (cs, Return w')" and "walkerInv w"
  shows "walkerInv w'"
proof (cases "data = marker env")
  case False
  with assms show ?thesis by (simp add: handleComment_def ret_def)
next
  case True
  with assms(1) obtain cs1 w1 cs2 where
    fl: "flushTo html (Some (startOffset loc)) w = (cs1, Return w1)"
    and rest: "(let (v, w2) = takeValue result (skipTo (endOffset loc) w1)
                in if int (partIndex w2) \<le> distributedIndex w2 then emit (placeholder v) w2
                   else inWorld (rv v cr ri) w2) = (cs2, Return w')"
    by (auto simp: handleComment_def andThen_returns)
  from walkerInv_flushTo [OF fl assms(2)] have inv1: "walkerInv w1" .
  obtain v w2 where tv: "takeValue result (skipTo (endOffset loc) w1) = (v, w2)"
    by (cases "takeValue result (skipTo (endOffset loc) w1)")
  from inv1 have "walkerInv (skipTo (endOffset loc) w1)"
    by (simp add: walkerInv_def skipTo_def)
  from walkerInv_takeValue [OF tv this] have inv2: "walkerInv w2" .
  from rest tv inv2 show ?thesis
    by (auto simp: emit_def dest: walkerInv_inWorld split: if_splits)
qed

lemma walkerInv_openElement:
  assumes "openElement env html cr ri node tag loc w = (cs, Return (w', i, wt))" and "walkerInv w"
  shows "walkerInv w'"
  using assms
  by (auto simp: openElement_def andThen_returns ret_def flushTo_returns inWorld_returns
      walkerInv_def skipTo_def split: if_splits option.splits prod.splits)

lemma walkerInv_fillMarkers:
  "fillMarkers env result ps w = Some (s, w') \<Longrightarrow> walkerInv w \<Longrightarrow> walkerInv w'"
proof (induction env result ps w arbitrary: s w' rule: fillMarkers.induct)
  case (3 env result p q ps w)
  obtain v w1 where tv: "takeValue result w = (v, w1)"
    by (cases "takeValue result w")
  from walkerInv_takeValue [OF tv "3.prems"(2)] have inv1: "walkerInv w1" .
  from "3.prems"(1) tv obtain x r where "attrValueString env v = Some x"
    and rest: "fillMarkers env result (q # ps) w1 = Some (r, w')"
    by (auto split: option.splits)
  from "3.IH" [OF tv [symmetric] this(1) rest inv1] show ?case .
qed simp_all

lemma walkerInv_handleAttr:
  assumes "handleAttr env result html tag loc instance attr (w, k) = (cs, Return (w', n))"
    and "walkerInv w"
  shows "walkerInv w'"
proof (cases "isBound attr")
  case False
  with assms show ?thesis by (simp add: handleAttr_unbound ret_def)
next
  case True
  have fill: "walkerInv w2" if "fillMarkers env result ps w1 = Some (s, w2)" and "walkerInv w1"
    for ps w1 s w2
    using that by (rule walkerInv_fillMarkers)
  have keep: "walkerInv (w1\<lparr>lastOffset := Some off\<rparr>)" if "walkerInv w1" for w1 off
    using that by (simp add: walkerInv_def)
  have taken: "walkerInv (w\<lparr>partIndex := Suc (partIndex w), reads := reads w @ [partIndex w]\<rparr>)"
    using assms(2) by (simp add: walkerInv_def)
  from True assms(1) show ?thesis
    by (auto simp: handleAttr_def skipTo_def Let_def throw_def takeValue_def
        emit_def ret_def andThen_returns
        split: option.splits if_splits prod.splits
        intro!: keep intro: fill [OF _ assms(2)] taken)
qed

lemma walkerInv_forEach_handleAttr:
  assumes "forEach (handleAttr env result html tag loc instance) attrs (w, k) =
      (cs, Return (w', n))"
    and "walkerInv w"
  shows "walkerInv w'"
proof -
  have "walkerInv (fst (w', n))"
  proof (rule forEach_invariant [where P = "\<lambda>s. walkerInv (fst s)", OF _ assms(1)])
    fix x s cs s'
    assume "handleAttr env result html tag loc instance x s = (cs, Return s')"
      and "walkerInv (fst s)"
    then show "walkerInv (fst s')"
      by (cases s; cases s') (auto dest: walkerInv_handleAttr)
  qed (use assms(2) in simp)
  then show ?thesis by simp
qed

lemma walkerInv_handleAttrs:
  assumes "handleAttrs env result html tag loc instance attrs w = (cs, Return w')"
    and "walkerInv w"
  shows "walkerInv w'"
  using assms
  by (auto simp: handleAttrs_def andThen_returns emit_def ret_def
      dest: walkerInv_forEach_handleAttr split: if_splits)

lemma walkerInv_expandElement:
  assumes "expandElement env result html ri childNodes loc instance writeTag w = (cs, Return w')"
    and "walkerInv w"
  shows "walkerInv w'"
  using assms
  by (auto simp: expandElement_def andThen_returns ret_def flushTo_returns walkerInv_def
      split: if_splits option.splits)

lemma walkerInv_handleElement:
  assumes "handleElement env result html cr ri node tag attrs childNodes loc w = (cs, Return w')"
    and "walkerInv w"
  shows "walkerInv w'"
proof (cases "node \<in> claimedNodes w")
  case True
  with assms show ?thesis
    by (auto simp: handleElement_def andThen_returns ret_def flushTo_returns walkerInv_def
        skipTo_def)
next
  case False
  with assms(1) obtain cs0 w0 i wt cs1 w1 cs2 where
    "openElement env html cr ri node tag loc w = (cs0, Return (w0, i, wt))"
    "handleAttrs env result html tag loc i attrs w0 = (cs1, Return w1)"
    "expandElement env result html ri childNodes loc i wt w1 = (cs2, Return w')"
    by (auto simp: handleElement_def andThen_returns)
  with assms(2) show ?thesis
    by (blast intro: walkerInv_openElement walkerInv_handleAttrs walkerInv_expandElement)
qed

lemma walkerInv_handleNode:
  assumes "handleNode rv env result html cr ri node w = (cs, Return w')" and "walkerInv w"
  shows "walkerInv w'"
  using assms
  by (cases node)
     (auto simp: handleNode_def ret_def dest: walkerInv_handleComment walkerInv_handleElement)

lemma walkerInv_handleNodes:
  assumes "forEach (handleNode rv env result html cr ri) nodes w = (cs, Return w')"
    and "walkerInv w"
  shows "walkerInv w'"
  by (rule forEach_invariant [where P = walkerInv, OF _ assms]) (rule walkerInv_handleNode)

lemma walkerInv_handleTopNode:
  assumes "handleTopNode rv env result html cr ri node w = (cs, Return w')" and "walkerInv w"
  shows "walkerInv w'"
proof -
  let ?w = "if isElement node then onWorld (push (nodeTag node)) w else w"
  have inv0: "walkerInv ?w"
    using assms(2) by simp
  from assms(1) obtain cs1 w1 where
    mid: "(case slot ri of
              Some sl \<Rightarrow>
                (if isElement node then
                   (if getAttr node ''slot'' = slotName sl then
                      andThen
                        (forEach (handleNode rv env result html cr ri) (depthFirst node)
                           (skipTo (nodeStart node) ?w))
                        (flushTo html (Some (nodeEnd node)))
                    else ret (skipTo (nodeEnd node) ?w))
                 else if slotName sl = None \<and> isTextNode node then
                   forEach (handleNode rv env result html cr ri) (depthFirst node) ?w
                 else ret ?w)
            | None \<Rightarrow>
                forEach (handleNode rv env result html cr ri) (depthFirst node)
                  (onWorld (traverse node) ?w)) = (cs1, Return w1)"
    and fin: "w' = (if isElement node then onWorld pop w1 else w1)"
    unfolding handleTopNode_def Let_def
    by (auto simp: andThen_returns ret_def)
  have "walkerInv w1"
  proof (cases "slot ri")
    case None
    with mid have "forEach (handleNode rv env result html cr ri) (depthFirst node)
        (onWorld (traverse node) ?w) = (cs1, Return w1)"
      by simp
    from walkerInv_handleNodes [OF this] inv0 show ?thesis by simp
  next
    case (Some sl)
    have sk: "walkerInv (skipTo off ?w)" for off
      using inv0 by (simp add: walkerInv_def skipTo_def onWorld_def)
    from Some mid inv0 sk show ?thesis
      by (auto simp: andThen_returns ret_def split: if_splits
          dest!: walkerInv_handleNodes dest: walkerInv_flushTo)
  qed
  with fin show ?thesis by simp
qed

lemma walkerInv_handleTopNodes:
  assumes "forEach (handleTopNode rv env result html cr ri) nodes w = (cs, Return w')"
    and "walkerInv w"
  shows "walkerInv w'"
  by (rule forEach_invariant [where P = walkerInv, OF _ assms]) (rule walkerInv_handleTopNode)

lemma renderTemplateResult_after_walk:
  assumes parse: "parseFragment env (getHTML result) = Some childNodes"
    and walk: "forEach (handleTopNode rv env result (getHTML result) cr ri) childNodes
        (initialWalker claimed wd) = (cs1, Return w1)"
  shows "\<exists>p. lastOffset w1 = Some p \<and> reads w1 = [0..<partIndex w1] \<and>
      renderTemplateResult rv env result cr claimed ri wd =
        (cs1 @ [substring (getHTML result) (Some p) None],
         if partIndex w1 = length (vals result) then Return (w1\<lparr>lastOffset := None\<rparr>)
         else Throw (finalPartIndexError (partIndex w1) (length (vals result))))"
proof -
  from walkerInv_handleTopNodes [OF walk] have "walkerInv w1" by simp
  then obtain p where p: "lastOffset w1 = Some p" and r: "reads w1 = [0..<partIndex w1]"
    by (auto simp: walkerInv_def)
  from parse walk p have "renderTemplateResult rv env result cr claimed ri wd =
        (cs1 @ [substring (getHTML result) (Some p) None],
         if partIndex w1 = length (vals result) then Return (w1\<lparr>lastOffset := None\<rparr>)
         else Throw (finalPartIndexError (partIndex w1) (length (vals result))))"
    by (simp add: renderTemplateResult_def getTemplate_def flushTo_def throw_def ret_def)
  with p r show ?thesis by blast
qed

text \<open>
  C1. Let the parsed tree of a TemplateResult have its top-level child-node list, as a
  tree from the parser has. Whenever the walk over the top-level nodes returns, the
  values read so far are exactly those with an index below the part index, each once
  and in order, the trailing markup is flushed from the cursor the walk has left to the
  end, and then the call returns if the part index equals the number of values and
  throws the consistency fault if it does not. So when \<open>renderTemplateResult\<close>
  returns, the part index is the number of values, every value has been read exactly
  once, and the last chunk is the trailing markup. With a dispatcher that returns or
  throws on the values of the template (and collaborators that do), the call returns or
  throws.
\<close>

theorem renderTemplateResult_value_conservation:
  assumes parse: "parseFragment env (getHTML result) = Some childNodes"
  shows "(\<forall>cs w. renderTemplateResult rv env result cr claimed ri wd = (cs, Return w) \<longrightarrow>
            partIndex w = length (vals result) \<and> reads w = [0..<length (vals result)] \<and>
            (\<exists>cs1 w1 p.
               forEach (handleTopNode rv env result (getHTML result) cr ri) childNodes
                 (initialWalker claimed wd) = (cs1, Return w1) \<and>
               lastOffset w1 = Some p \<and>
               cs = cs1 @ [substring (getHTML result) (Some p) None] \<and>
               w = w1\<lparr>lastOffset := None\<rparr>))
       \<and> (\<forall>cs1 w1.
            forEach (handleTopNode rv env result (getHTML result) cr ri) childNodes
              (initialWalker claimed wd) = (cs1, Return w1) \<longrightarrow>
            reads w1 = [0..<partIndex w1] \<and>
            (\<exists>p. lastOffset w1 = Some p \<and>
               renderTemplateResult rv env result cr claimed ri wd =
                 (cs1 @ [substring (getHTML result) (Some p) None],
                  if partIndex w1 = length (vals result) then Return (w1\<lparr>lastOffset := None\<rparr>)
                  else Throw (finalPartIndexError (partIndex w1) (length (vals result))))))
       \<and> (totalEnv env \<and> totalChildRenderer cr \<and> totalOn rv result cr \<longrightarrow>
            snd (renderTemplateResult rv env result cr claimed ri wd) \<noteq> OutOfFuel)"
proof (intro conjI allI impI)
  fix cs w
  assume run: "renderTemplateResult rv env result cr claimed ri wd = (cs, Return w)"
  with parse obtain cs1 w1 where
    walk: "forEach (handleTopNode rv env result (getHTML result) cr ri) childNodes
        (initialWalker claimed wd) = (cs1, Return w1)"
    by (auto simp: renderTemplateResult_def getTemplate_def andThen_returns)
  from renderTemplateResult_after_walk [OF parse walk] run
  obtain p where p: "lastOffset w1 = Some p" and r: "reads w1 = [0..<partIndex w1]"
    and cs: "cs = cs1 @ [substring (getHTML result) (Some p) None]"
    and n: "partIndex w1 = length (vals result)" and w: "w = w1\<lparr>lastOffset := None\<rparr>"
    by (auto split: if_splits)
  from r n w show "partIndex w = length (vals result)" "reads w = [0..<length (vals result)]"
    by simp_all
  from walk p cs w
  show "\<exists>cs1 w1 p.
               forEach (handleTopNode rv env result (getHTML result) cr ri) childNodes
                 (initialWalker claimed wd) = (cs1, Return w1) \<and>
               lastOffset w1 = Some p \<and>
               cs = cs1 @ [substring (getHTML result) (Some p) None] \<and>
               w = w1\<lparr>lastOffset := None\<rparr>"
    by blast
next
  fix cs1 w1
  assume walk: "forEach (handleTopNode rv env result (getHTML result) cr ri) childNodes
              (initialWalker claimed wd) = (cs1, Return w1)"
  from renderTemplateResult_after_walk [OF parse walk]
  show "reads w1 = [0..<partIndex w1]"
    and "\<exists>p. lastOffset w1 = Some p \<and>
               renderTemplateResult rv env result cr claimed ri wd =
                 (cs1 @ [substring (getHTML result) (Some p) None],
                  if partIndex w1 = length (vals result) then Return (w1\<lparr>lastOffset := None\<rparr>)
                  else Throw (finalPartIndexError (partIndex w1) (length (vals result))))"
    by blast+
next
  assume "totalEnv env \<and> totalChildRenderer cr \<and> totalOn rv result cr"
  then have "finishes (renderTemplateResult rv env result cr claimed ri wd)"
    by (intro finishes_renderTemplateResult) simp_all
  then show "snd (renderTemplateResult rv env result cr claimed ri wd) \<noteq> OutOfFuel"
    unfolding finishes_def .
qed

theorem renderTemplateResult_value_conservation_witness:
  "parseFragment env1 (getHTML tDiv) = Some nodesDiv \<and>
   renderTemplateResult (renderValue 1 env1) env1 tDiv None {} ri0 wd0 =
     ([''<div '', ''class='' @ dq @ ''a'' @ dq, '' __lit-attr='' @ dq @ ''1'' @ dq, ''>'',
       ''<!--lit-part-->'', ''hi'', ''<!--/lit-part-->'', ''</div>''],
      Return ((initialWalker {} wd0)\<lparr>partIndex := 2, lastOffset := None, reads := [0, 1]\<rparr>)) \<and>
   length (vals tDiv) = 2 \<and>
   forEach (handleTopNode (renderValue 1 env1) env1 tDivShort (getHTML tDivShort) None ri0)
       nodesDiv (initialWalker {} wd0) =
     ([''<div '', ''class='' @ dq @ ''a'' @ dq, '' __lit-attr='' @ dq @ ''1'' @ dq, ''>'',
       ''<!--lit-part-->'', ''<!--/lit-part-->''],
      Return ((initialWalker {} wd0)\<lparr>partIndex := 2, lastOffset := Some 44, reads := [0, 1]\<rparr>)) \<and>
   renderTemplateResult (renderValue 1 env1) env1 tDivShort None {} ri0 wd0 =
     ([''<div '', ''class='' @ dq @ ''a'' @ dq, '' __lit-attr='' @ dq @ ''1'' @ dq, ''>'',
       ''<!--lit-part-->'', ''<!--/lit-part-->'', ''</div>''],
      Throw (Error ''unexpected final partIndex: 2 !== 1'')) \<and>
   totalEnv env1 \<and> totalChildRenderer None \<and> totalOn (renderValue 1 env1) tDiv None \<and>
   snd (renderTemplateResult (renderValue 1 env1) env1 tDiv None {} ri0 wd0) \<noteq> OutOfFuel"
proof -
  have parse: "parseFragment env1 (getHTML tDiv) = Some nodesDiv"
    by code_simp
  have parseShort: "parseFragment env1 (getHTML tDivShort) = Some nodesDiv"
    by code_simp
  have run: "renderTemplateResult (renderValue 1 env1) env1 tDiv None {} ri0 wd0 =
     ([''<div '', ''class='' @ dq @ ''a'' @ dq, '' __lit-attr='' @ dq @ ''1'' @ dq, ''>'',
       ''<!--lit-part-->'', ''hi'', ''<!--/lit-part-->'', ''</div>''],
      Return ((initialWalker {} wd0)\<lparr>partIndex := 2, lastOffset := None, reads := [0, 1]\<rparr>))"
    by code_simp
  have walk: "forEach (handleTopNode (renderValue 1 env1) env1 tDivShort (getHTML tDivShort)
       None ri0) nodesDiv (initialWalker {} wd0) =
     ([''<div '', ''class='' @ dq @ ''a'' @ dq, '' __lit-attr='' @ dq @ ''1'' @ dq, ''>'',
       ''<!--lit-part-->'', ''<!--/lit-part-->''],
      Return ((initialWalker {} wd0)\<lparr>partIndex := 2, lastOffset := Some 44, reads := [0, 1]\<rparr>))"
    by code_simp
  have tail: "substring (getHTML tDivShort) (Some 44) None = ''</div>''"
    by code_simp
  have env: "totalEnv env1"
    by (simp add: totalEnv_def env1_def env0_def finishes_def)
  have cr: "totalChildRenderer None"
    by (simp add: totalChildRenderer_def)
  have light: "lightBound env1 1"
    by (simp add: lightBound_def env1_def)
  have "fuelNeeded 1 (VTemplate tDiv) = 2"
    by (simp add: tDiv_def)
  with fuelNeeded_valueAt [of 1 tDiv] have "fuelNeeded 1 (valueAt tDiv i) \<le> 1" for i
    by (simp add: less_Suc_eq_le numeral_2_eq_2)
  then have dispatcher: "totalOn (renderValue 1 env1) tDiv None"
    unfolding totalOn_def by (intro allI renderValue_total [OF env cr light])
  note conservation = renderTemplateResult_value_conservation [OF parse,
      of "renderValue 1 env1" None "{}" ri0 wd0]
  from conservation run have len: "length (vals tDiv) = 2"
    by auto
  from conservation env cr dispatcher
  have total: "snd (renderTemplateResult (renderValue 1 env1) env1 tDiv None {} ri0 wd0) \<noteq>
      OutOfFuel"
    by blast
  have msg: "finalPartIndexError 2 (length (vals tDivShort)) =
      Error ''unexpected final partIndex: 2 !== 1''"
    by code_simp
  let ?w1 = "(initialWalker {} wd0)\<lparr>partIndex := 2, lastOffset := Some 44, reads := [0, 1]\<rparr>"
  from renderTemplateResult_value_conservation [OF parseShort,
      of "renderValue 1 env1" None "{}" ri0 wd0, THEN conjunct2, THEN conjunct1,
      rule_format, OF walk]
  obtain p where p: "lastOffset ?w1 = Some p"
    and eq: "renderTemplateResult (renderValue 1 env1) env1 tDivShort None {} ri0 wd0 =
        ([''<div '', ''class='' @ dq @ ''a'' @ dq, '' __lit-attr='' @ dq @ ''1'' @ dq, ''>'',
          ''<!--lit-part-->'', ''<!--/lit-part-->''] @
         [substring (getHTML tDivShort) (Some p) None],
         if partIndex ?w1 = length (vals tDivShort) then Return (?w1\<lparr>lastOffset := None\<rparr>)
         else Throw (finalPartIndexError (partIndex ?w1) (length (vals tDivShort))))"
    by blast
  from p have p44: "p = 44"
    by simp
  have differ: "partIndex ?w1 \<noteq> length (vals tDivShort)" and at2: "partIndex ?w1 = 2"
    by (simp_all add: tDivShort_def)
  from eq differ have "renderTemplateResult (renderValue 1 env1) env1 tDivShort None {} ri0 wd0 =
        ([''<div '', ''class='' @ dq @ ''a'' @ dq, '' __lit-attr='' @ dq @ ''1'' @ dq, ''>'',
          ''<!--lit-part-->'', ''<!--/lit-part-->''] @
         [substring (getHTML tDivShort) (Some p) None],
         Throw (finalPartIndexError (partIndex ?w1) (length (vals tDivShort))))"
    by (simp only: if_False)
  then have short: "renderTemplateResult (renderValue 1 env1) env1 tDivShort None {} ri0 wd0 =
     ([''<div '', ''class='' @ dq @ ''a'' @ dq, '' __lit-attr='' @ dq @ ''1'' @ dq, ''>'',
       ''<!--lit-part-->'', ''<!--/lit-part-->'', ''</div>''],
      Throw (Error ''unexpected final partIndex: 2 !== 1''))"
    by (simp only: p44 at2 tail msg append.simps)
  from parse run len walk short env cr dispatcher total show ?thesis
    by blast
qed

section \<open>Balance of the bracket markers\<close>

lemma scanMarkers_append:
  "scanMarkers (xs @ ys) d =
     (case scanMarkers xs d of None \<Rightarrow> None | Some d' \<Rightarrow> scanMarkers ys d')"
  by (induction xs arbitrary: d) (auto split: nat.splits)

lemma scanMarkers_shift:
  "scanMarkers xs d = Some d' \<Longrightarrow> scanMarkers xs (d + k) = Some (d' + k)"
proof (induction xs arbitrary: d)
  case Nil
  then show ?case by simp
next
  case (Cons c cs)
  show ?case
  proof (cases "isClose c")
    case True
    with Cons.prems obtain e where d: "d = Suc e" and "scanMarkers cs e = Some d'"
      by (cases d) auto
    from Cons.IH [OF this(2)] True d show ?thesis by simp
  next
    case False
    with Cons.prems have "scanMarkers cs (if isOpen c then Suc d else d) = Some d'"
      by (cases "isOpen c") simp_all
    from Cons.IH [OF this] False show ?thesis by (cases "isOpen c") simp_all
  qed
qed

lemma isOpen_not_isClose: "isOpen c \<Longrightarrow> \<not> isClose c"
  by (auto simp: isOpen_def isClose_def openPart_def closePart_def)

lemma scanMarkers_count:
  "scanMarkers xs d = Some d' \<Longrightarrow>
     d + length (filter isOpen xs) = d' + length (filter isClose xs)"
proof (induction xs arbitrary: d)
  case Nil
  then show ?case by simp
next
  case (Cons c cs)
  show ?case
  proof (cases "isClose c")
    case True
    with Cons.prems obtain e where d: "d = Suc e" and "scanMarkers cs e = Some d'"
      by (cases d) auto
    from Cons.IH [OF this(2)] True d isOpen_not_isClose [of c] show ?thesis by auto
  next
    case False
    with Cons.prems have "scanMarkers cs (if isOpen c then Suc d else d) = Some d'"
      by (cases "isOpen c") simp_all
    from Cons.IH [OF this] False show ?thesis by (cases "isOpen c") simp_all
  qed
qed

lemma balanced_Nil [simp]: "balanced []"
  by (simp add: balanced_def)

lemma balanced_append: "balanced xs \<Longrightarrow> balanced ys \<Longrightarrow> balanced (xs @ ys)"
  by (simp add: balanced_def scanMarkers_append)

lemma balanced_neutral: "neutral c \<Longrightarrow> balanced [c]"
  by (simp add: balanced_def neutral_def)

lemma balanced_neutral_Cons: "neutral c \<Longrightarrow> balanced cs \<Longrightarrow> balanced (c # cs)"
  using balanced_append [OF balanced_neutral, of c cs] by simp

lemma isClose_closePart [simp]: "isClose closePart"
  by (simp add: isClose_def)

lemma balanced_bracket:
  assumes "isOpen a" and "balanced xs"
  shows "balanced (a # xs @ [closePart])"
proof -
  from assms(2) have "scanMarkers xs 0 = Some 0"
    by (simp add: balanced_def)
  from scanMarkers_shift [OF this, of 1] have "scanMarkers xs (Suc 0) = Some (Suc 0)"
    by simp
  with assms(1) show ?thesis
    by (simp add: balanced_def isOpen_not_isClose scanMarkers_append)
qed

lemma isOpen_openPart [simp]: "isOpen openPart"
  by (simp add: isOpen_def)

lemma isOpen_openPartDigest: "CHR ''<'' \<notin> set d \<Longrightarrow> isOpen (openPartDigest d)"
  by (simp add: isOpen_def openPartDigest_def suffix_def)

text \<open>The opening markers are the bare one and those that carry a digest without \<open><\<close>.\<close>

lemma isOpen_iff:
  "isOpen c \<longleftrightarrow> c = openPart \<or> (\<exists>d. CHR ''<'' \<notin> set d \<and> c = openPartDigest d)"
proof
  assume "isOpen c"
  then consider "c = openPart"
    | "prefix ''<!--lit-part '' c" "suffix ''-->'' c" "16 \<le> length c"
      "CHR ''<'' \<notin> set (drop 13 (take (length c - 3) c))"
    by (auto simp: isOpen_def)
  then show "c = openPart \<or> (\<exists>d. CHR ''<'' \<notin> set d \<and> c = openPartDigest d)"
  proof cases
    case 1
    then show ?thesis by simp
  next
    case 2
    let ?d = "drop 13 (take (length c - 3) c)"
    from 2(1) have p: "take 13 c = ''<!--lit-part ''"
      by (auto simp: prefix_def)
    from 2(2) have s: "drop (length c - 3) c = ''-->''"
      by (auto simp: suffix_def)
    from 2(3) have "13 \<le> length c - 3"
      by arith
    then have "take 13 (take (length c - 3) c) = take 13 c"
      by (simp add: min_absorb1)
    then have "take (length c - 3) c = take 13 c @ ?d"
      by (metis append_take_drop_id)
    then have "c = take 13 c @ ?d @ drop (length c - 3) c"
      by (metis append_take_drop_id append.assoc)
    with p s have "c = openPartDigest ?d"
      by (simp add: openPartDigest_def)
    with 2(4) show ?thesis by blast
  qed
next
  assume "c = openPart \<or> (\<exists>d. CHR ''<'' \<notin> set d \<and> c = openPartDigest d)"
  then show "isOpen c"
    by (auto intro: isOpen_openPartDigest)
qed

lemma neutral_dq: "neutral (s @ dq)"
  by (auto simp: neutral_def isOpen_def isClose_def openPart_def closePart_def dq_def suffix_def)

lemma neutral_placeholder: "neutral (placeholder v)"
  by (cases v) (auto simp: neutral_def isOpen_def isClose_def openPart_def closePart_def)

lemma neutral_short: "length c < 15 \<Longrightarrow> neutral c"
  by (auto simp: neutral_def isOpen_def isClose_def openPart_def closePart_def)

lemma length_substring: "length (substring s a b) \<le> length s"
  by (simp add: substring_def Let_def)

lemma neutralMarkup_short: "length html < 15 \<Longrightarrow> neutralMarkup html"
  unfolding neutralMarkup_def
  by (meson neutral_short length_substring le_less_trans)

lemma balanced_andThen:
  assumes "andThen m f = (cs, Return b)"
    and "\<And>cs1 a. m = (cs1, Return a) \<Longrightarrow> balanced cs1"
    and "\<And>cs1 a cs2. m = (cs1, Return a) \<Longrightarrow> f a = (cs2, Return b) \<Longrightarrow> balanced cs2"
  shows "balanced cs"
proof -
  from assms(1) obtain cs1 a cs2 where
    "m = (cs1, Return a)" "f a = (cs2, Return b)" "cs = cs1 @ cs2"
    by (auto simp: andThen_returns)
  with assms(2,3) show ?thesis
    by (auto intro: balanced_append)
qed

lemma balanced_forEach:
  assumes step: "\<And>x s cs s'. x \<in> set xs \<Longrightarrow> body x s = (cs, Return s') \<Longrightarrow> balanced cs"
  shows "forEach body xs s = (cs, Return s') \<Longrightarrow> balanced cs"
  using step
proof (induction xs arbitrary: s cs)
  case Nil
  then show ?case by (simp add: ret_def)
next
  case (Cons x xs)
  from Cons.prems(1) have run: "andThen (body x s) (forEach body xs) = (cs, Return s')"
    by simp
  show ?case
  proof (rule balanced_andThen [OF run])
    fix cs1 a
    assume "body x s = (cs1, Return a)"
    then show "balanced cs1" by (rule Cons.prems(2) [rotated]) simp
  next
    fix cs1 a cs2
    assume "forEach body xs a = (cs2, Return s')"
    then show "balanced cs2"
      by (rule Cons.IH) (rule Cons.prems(2), simp_all)
  qed
qed

lemma neutral_last_dq: "c \<noteq> [] \<Longrightarrow> last c = CHR 0x22 \<Longrightarrow> neutral c"
  by (cases c rule: rev_cases)
     (auto simp: neutral_def isOpen_def isClose_def openPart_def closePart_def suffix_def)

lemma neutral_litAttr: "neutral (litAttr n)"
  by (rule neutral_last_dq) (simp_all add: litAttr_def dq_def)

lemma balanced_flushTo:
  "neutralMarkup html \<Longrightarrow> flushTo html off w = (cs, Return w') \<Longrightarrow> balanced cs"
  by (auto simp: flushTo_returns neutralMarkup_def intro: balanced_neutral)

lemma goodVal_valueAt:
  "\<forall>v \<in> set (vals result). goodVal env v \<Longrightarrow> goodVal env (valueAt result i)"
  by (simp add: valueAt_def)

lemma goodVal_template:
  "goodVal env (VTemplate t) \<longleftrightarrow>
     CHR ''<'' \<notin> set (digest t) \<and> neutralMarkup (getHTML t) \<and> (\<forall>v \<in> set (vals t). goodVal env v)"
  by (cases t) simp

lemma goodDispatcherD:
  "goodDispatcher env cr rv \<Longrightarrow> goodVal env v \<Longrightarrow> rv v cr ri wd = (cs, Return wd') \<Longrightarrow>
     balanced cs"
  unfolding goodDispatcher_def by blast

lemma goodChildRendererD:
  "goodChildRenderer (Some c) \<Longrightarrow> c name wd = (cs, Return wd') \<Longrightarrow> balanced cs"
  unfolding goodChildRenderer_def by blast

lemma goodEnv_repeatD:
  "goodEnv env \<Longrightarrow> repeatRender env k cr ri wd = (cs, Return wd') \<Longrightarrow> balanced cs"
  unfolding goodEnv_def by blast

lemma goodEnv_elementD:
  "goodEnv env \<Longrightarrow> renderElement env r args ri s = (cs, Return s') \<Longrightarrow> balanced cs"
  unfolding goodEnv_def by blast

lemma goodEnv_lightD: "goodEnv env \<Longrightarrow> goodVal env (renderLight env wd r)"
  unfolding goodEnv_def by blast

lemma balanced_handleComment:
  assumes "handleComment rv env result html cr ri data loc w = (cs, Return w')"
    and "neutralMarkup html" and "\<forall>v \<in> set (vals result). goodVal env v"
    and "goodDispatcher env cr rv"
  shows "balanced cs"
proof (cases "data = marker env")
  case False
  with assms(1) show ?thesis by (simp add: handleComment_def ret_def)
next
  case True
  with assms(1) have run: "andThen (flushTo html (Some (startOffset loc)) w)
          (\<lambda>w. let (v, w) = takeValue result (skipTo (endOffset loc) w)
                in if int (partIndex w) \<le> distributedIndex w then emit (placeholder v) w
                   else inWorld (rv v cr ri) w) = (cs, Return w')"
    by (simp add: handleComment_def)
  show ?thesis
  proof (rule balanced_andThen [OF run])
    fix cs1 a
    assume "flushTo html (Some (startOffset loc)) w = (cs1, Return a)"
    with assms(2) show "balanced cs1" by (rule balanced_flushTo)
  next
    fix cs1 a cs2
    assume rest: "(let (v, w) = takeValue result (skipTo (endOffset loc) a)
                in if int (partIndex w) \<le> distributedIndex w then emit (placeholder v) w
                   else inWorld (rv v cr ri) w) = (cs2, Return w')"
    have good: "goodVal env (valueAt result i)" for i
      using assms(3) by (rule goodVal_valueAt)
    from rest good show "balanced cs2"
      by (auto simp: takeValue_def emit_def inWorld_returns
          intro: balanced_neutral neutral_placeholder goodDispatcherD [OF assms(4)]
          split: if_splits)
  qed
qed

lemma balanced_openElement:
  assumes "openElement env html cr ri node tag loc w = (cs, Return r)"
    and "neutralMarkup html" and "goodChildRenderer cr"
  shows "balanced cs"
proof -
  have lit: "neutral (substring html a b)" for a b
    using assms(2) by (simp add: neutralMarkup_def)
  have provider: "balanced xs" if "cr = Some c" and "c name wd = (xs, Return wd')" for c name wd xs wd'
    using assms(3) that by (auto intro: goodChildRendererD)
  show ?thesis
  proof (cases "tag = ''slot'' \<and> flattened ri")
    case True
    with assms(1) obtain cs1 w1 cs2 w2 where
      fl: "flushTo html (Some (startOffset (startTag loc))) w = (cs1, Return w1)"
      and pr: "(case cr of None \<Rightarrow> ret w1
                | Some childRenderer \<Rightarrow> inWorld (childRenderer (getAttr node ''name'')) w1) =
               (cs2, Return w2)"
      and cs: "cs = cs1 @ cs2"
      by (auto simp: openElement_def andThen_returns ret_def)
    from fl assms(2) have "balanced cs1" by (auto dest: balanced_flushTo)
    moreover from pr have "balanced cs2"
      by (cases cr) (auto simp: ret_def inWorld_returns intro: provider)
    ultimately show ?thesis
      using cs by (simp add: balanced_append)
  next
    case False
    with assms(1) show ?thesis
      by (auto simp: openElement_def ret_def split: if_splits option.splits prod.splits)
  qed
qed

lemma balanced_handleAttr:
  assumes "handleAttr env result html tag loc instance attr s = (cs, Return s')"
    and "neutralMarkup html"
  shows "balanced cs"
proof (cases "isBound attr")
  case False
  with assms show ?thesis by (cases s) (simp add: handleAttr_unbound ret_def)
next
  case True
  have lit: "neutral (substring html a b)" for a b
    using assms(2) by (simp add: neutralMarkup_def)
  have q: "neutral (a @ ''='' @ dq @ b @ dq)" for a b
    by (rule neutral_last_dq) (simp_all add: dq_def)
  from True assms(1) lit q show ?thesis
    by (cases s)
       (auto simp: handleAttr_def Let_def throw_def emit_def ret_def andThen_returns
          intro!: balanced_neutral_Cons balanced_neutral
          split: option.splits if_splits prod.splits)
qed

lemma balanced_handleAttrs:
  assumes "handleAttrs env result html tag loc instance attrs w = (cs, Return w')"
    and "neutralMarkup html"
  shows "balanced cs"
proof -
  from assms(1) have run: "andThen (forEach (handleAttr env result html tag loc instance) attrs (w, 0))
       (\<lambda>(w, boundAttrsCount).
          if 0 < boundAttrsCount then emit (litAttr boundAttrsCount) w else ret w) = (cs, Return w')"
    by (simp add: handleAttrs_def)
  show ?thesis
  proof (rule balanced_andThen [OF run])
    fix cs1 a
    assume "forEach (handleAttr env result html tag loc instance) attrs (w, 0) = (cs1, Return a)"
    then show "balanced cs1"
      by (rule balanced_forEach [rotated]) (rule balanced_handleAttr [OF _ assms(2)])
  next
    fix cs1 a cs2
    assume "(case a of (w, boundAttrsCount) \<Rightarrow>
          if 0 < boundAttrsCount then emit (litAttr boundAttrsCount) w else ret w) = (cs2, Return w')"
    then show "balanced cs2"
      by (cases a) (auto simp: emit_def ret_def intro: balanced_neutral neutral_litAttr split: if_splits)
  qed
qed

lemma balanced_expandElement:
  assumes "expandElement env result html ri childNodes loc instance writeTag w = (cs, Return w')"
    and "neutralMarkup html" and "goodEnv env"
  shows "balanced cs"
proof -
  have lit: "neutral (substring html a b)" for a b
    using assms(2) by (simp add: neutralMarkup_def)
  from assms(1) obtain cs1 w1 cs2 where
    fl: "(if writeTag then flushTo html (Some (endOffset (startTag loc))) w else ret w) =
        (cs1, Return w1)"
    and ex: "(case instance of
               None \<Rightarrow> ret w1
             | Some r \<Rightarrow>
                 andThen
                   (renderElement env r (childNodes, html, result, partIndex w1) ri
                      (claimedNodes w1, wld w1))
                   (\<lambda>(renderedPartIndex, claimed, wd).
                      ret (w1\<lparr>distributedIndex := renderedPartIndex,
                             claimedNodes := claimed, wld := wd\<rparr>))) = (cs2, Return w')"
    and cs: "cs = cs1 @ cs2"
    by (auto simp: expandElement_def andThen_returns)
  from fl assms(2) have "balanced cs1"
    by (auto simp: ret_def split: if_splits dest: balanced_flushTo)
  moreover from ex have "balanced cs2"
    by (auto simp: ret_def andThen_returns split: option.splits
        dest: goodEnv_elementD [OF assms(3)])
  ultimately show ?thesis
    using cs by (simp add: balanced_append)
qed

lemma balanced_handleElement:
  assumes "handleElement env result html cr ri node tag attrs childNodes loc w = (cs, Return w')"
    and "neutralMarkup html" and "goodEnv env" and "goodChildRenderer cr"
  shows "balanced cs"
proof (cases "node \<in> claimedNodes w")
  case True
  with assms(1,2) show ?thesis
    by (auto simp: handleElement_def andThen_returns ret_def flushTo_returns neutralMarkup_def
        intro: balanced_neutral)
next
  case False
  with assms(1) obtain cs0 w0 i wt cs1 w1 cs2 where
    "openElement env html cr ri node tag loc w = (cs0, Return (w0, i, wt))"
    "handleAttrs env result html tag loc i attrs w0 = (cs1, Return w1)"
    "expandElement env result html ri childNodes loc i wt w1 = (cs2, Return w')"
    "cs = cs0 @ cs1 @ cs2"
    by (auto simp: handleElement_def andThen_returns)
  with assms(2-) show ?thesis
    by (auto intro!: balanced_append
        intro: balanced_openElement balanced_handleAttrs balanced_expandElement)
qed

lemma balanced_handleNode:
  assumes "handleNode rv env result html cr ri node w = (cs, Return w')"
    and "neutralMarkup html" and "goodEnv env" and "goodChildRenderer cr"
    and "\<forall>v \<in> set (vals result). goodVal env v" and "goodDispatcher env cr rv"
  shows "balanced cs"
  using assms
  by (cases node)
     (auto simp: handleNode_def ret_def intro: balanced_handleComment balanced_handleElement)

lemma balanced_handleNodes:
  assumes "forEach (handleNode rv env result html cr ri) nodes w = (cs, Return w')"
    and "neutralMarkup html" and "goodEnv env" and "goodChildRenderer cr"
    and "\<forall>v \<in> set (vals result). goodVal env v" and "goodDispatcher env cr rv"
  shows "balanced cs"
  by (rule balanced_forEach [OF _ assms(1)]) (rule balanced_handleNode [OF _ assms(2-)])

lemma balanced_handleTopNode:
  assumes "handleTopNode rv env result html cr ri node w = (cs, Return w')"
    and "neutralMarkup html" and "goodEnv env" and "goodChildRenderer cr"
    and "\<forall>v \<in> set (vals result). goodVal env v" and "goodDispatcher env cr rv"
  shows "balanced cs"
proof -
  note nodes = balanced_handleNodes [OF _ assms(2-)]
  from assms(1) show ?thesis
    unfolding handleTopNode_def Let_def
    by (auto simp: andThen_returns ret_def split: option.splits if_splits
        intro!: balanced_append intro: nodes balanced_flushTo [OF assms(2)])
qed

lemma balanced_renderTemplateResult:
  assumes "renderTemplateResult rv env result cr claimed ri wd = (cs, Return w')"
    and "goodVal env (VTemplate result)" and "goodEnv env" and "goodChildRenderer cr"
    and "goodDispatcher env cr rv"
  shows "balanced cs"
proof -
  from assms(2) have html: "neutralMarkup (getHTML result)"
    and vs: "\<forall>v \<in> set (vals result). goodVal env v"
    by (simp_all add: goodVal_template)
  note top = balanced_handleTopNode [OF _ html assms(3,4) vs assms(5)]
  show ?thesis
  proof (cases "parseFragment env (getHTML result)")
    case None
    with assms(1) show ?thesis
      by (simp add: renderTemplateResult_def getTemplate_def ret_def)
  next
    case (Some childNodes)
    with assms(1) obtain cs1 w1 cs2 where
      walk: "forEach (handleTopNode rv env result (getHTML result) cr ri) childNodes
          (initialWalker claimed wd) = (cs1, Return w1)"
      and fl: "andThen (flushTo (getHTML result) None w1)
              (\<lambda>w. if partIndex w \<noteq> length (vals result) then
                      throw (finalPartIndexError (partIndex w) (length (vals result)))
                    else ret w) = (cs2, Return w')"
      and cs: "cs = cs1 @ cs2"
      by (auto simp: renderTemplateResult_def getTemplate_def andThen_returns)
    from walk have "balanced cs1"
      by (rule balanced_forEach [rotated]) (rule top)
    moreover from fl html have "balanced cs2"
      by (auto simp: andThen_returns ret_def throw_def split: if_splits
          dest: balanced_flushTo)
    ultimately show ?thesis
      using cs by (simp add: balanced_append)
  qed
qed

lemma balanced_renderValue:
  assumes "goodEnv env" and "goodChildRenderer cr"
  shows "goodVal env v \<Longrightarrow> renderValue n env v cr ri wd = (cs, Return wd') \<Longrightarrow> balanced cs"
proof (induction n arbitrary: v ri wd cs wd')
  case 0
  then show ?case by simp
next
  case (Suc n)
  have disp: "goodDispatcher env cr (renderValue n env)"
    unfolding goodDispatcher_def using Suc.IH by blast
  have plain: "balanced cs"
    if run: "andThen (emit openPart wd) (\<lambda>wd. andThen (m wd) (emit closePart)) = (cs, Return wd')"
      and inner: "\<And>xs. m wd = (xs, Return wd') \<Longrightarrow> balanced xs" for m
  proof -
    from run obtain xs where "m wd = (xs, Return wd')" and "cs = openPart # xs @ [closePart]"
      by (rule bracket_returnsE)
    with inner show ?thesis
      by (simp add: balanced_bracket)
  qed
  show ?case
  proof (cases v)
    case (VTemplate t)
    with Suc.prems(2) have run: "andThen (emit (openPartDigest (digest t)) wd)
            (\<lambda>wd. andThen
               (andThen (renderTemplateResult (renderValue n env) env t cr {} ri wd)
                  (\<lambda>w. ret (wld w)))
               (emit closePart)) = (cs, Return wd')"
      by (simp only: renderValue.simps val.case)
    then obtain xs where inner: "andThen (renderTemplateResult (renderValue n env) env t cr {} ri wd)
                  (\<lambda>w. ret (wld w)) = (xs, Return wd')"
      and cs: "cs = openPartDigest (digest t) # xs @ [closePart]"
      by (rule bracket_returnsE)
    from inner obtain w where "renderTemplateResult (renderValue n env) env t cr {} ri wd = (xs, Return w)"
      by (auto simp: andThen_returns ret_def)
    from balanced_renderTemplateResult [OF this _ assms disp] Suc.prems(1) VTemplate
    have "balanced xs" by simp
    moreover from Suc.prems(1) VTemplate have "isOpen (openPartDigest (digest t))"
      by (simp add: goodVal_template isOpen_openPartDigest)
    ultimately show ?thesis
      using cs by (simp add: balanced_bracket)
  next
    case VUndefined
    with Suc.prems(2) show ?thesis
      by (intro plain [where m = ret]) (simp_all only: renderValue.simps val.case, simp add: ret_def)
  next
    case VNull
    with Suc.prems(2) show ?thesis
      by (intro plain [where m = ret]) (simp_all only: renderValue.simps val.case, simp add: ret_def)
  next
    case VNothing
    with Suc.prems(2) show ?thesis
      by (intro plain [where m = ret]) (simp_all only: renderValue.simps val.case, simp add: ret_def)
  next
    case (VRepeat k)
    with Suc.prems(2) show ?thesis
      by (intro plain [where m = "repeatRender env k cr ri"])
         (simp_all only: renderValue.simps val.case, auto dest: goodEnv_repeatD [OF assms(1)])
  next
    case VRenderLight
    let ?m = "\<lambda>wd. if instances wd = [] then
                       throw (TypeError ''cannot read instance of undefined'')
                     else
                       (case inst (last (instances wd)) of
                          None \<Rightarrow> ret wd
                        | Some r \<Rightarrow> renderValue n env (renderLight env wd r) cr ri wd)"
    from assms(1) have light: "goodVal env (renderLight env wd r)" for r
      by (rule goodEnv_lightD)
    from VRenderLight Suc.prems(2) show ?thesis
    proof (intro plain [where m = ?m])
      fix xs
      assume run: "?m wd = (xs, Return wd')"
      have "balanced ys" if "renderValue n env (renderLight env wd r) cr ri wd = (ys, Return wd')"
        for r ys
        using Suc.IH [OF light that] .
      with run show "balanced xs"
        by (auto simp: throw_def ret_def split: if_splits option.splits)
    qed (simp only: renderValue.simps val.case)
  next
    case (VClassMap s)
    with Suc.prems show ?thesis
      by (intro plain [where m = "\<lambda>wd. case String_of env v of
            None \<Rightarrow> throw symbolTypeError | Some s \<Rightarrow> emit s wd"])
         (simp_all only: renderValue.simps val.case,
          auto simp: emit_def String_of_def intro: balanced_neutral)
  next
    case (VOther s)
    with Suc.prems show ?thesis
      by (intro plain [where m = "\<lambda>wd. case String_of env v of
            None \<Rightarrow> throw symbolTypeError | Some s \<Rightarrow> emit s wd"])
         (simp_all only: renderValue.simps val.case,
          auto simp: emit_def String_of_def intro: balanced_neutral)
  next
    case (VSymbol d)
    have "neutral (''Symbol('' @ d @ '')'')"
      by (auto simp: neutral_def isOpen_def isClose_def openPart_def closePart_def)
    with VSymbol Suc.prems show ?thesis
      by (intro plain [where m = "\<lambda>wd. case String_of env v of
            None \<Rightarrow> throw symbolTypeError | Some s \<Rightarrow> emit s wd"])
         (simp_all only: renderValue.simps val.case,
          auto simp: emit_def String_of_def intro: balanced_neutral)
  next
    case (VArray items)
    from VArray Suc.prems(2) show ?thesis
    proof (intro plain [where m = "forEach (\<lambda>item. renderValue n env item cr ri) items"])
      fix xs
      assume "forEach (\<lambda>item. renderValue n env item cr ri) items wd = (xs, Return wd')"
      then show "balanced xs"
      proof (rule balanced_forEach [rotated])
        fix x s cs s'
        assume "x \<in> set items" and "renderValue n env x cr ri s = (cs, Return s')"
        with Suc.prems(1) VArray Suc.IH show "balanced cs" by auto
      qed
    qed (simp only: renderValue.simps val.case)
  qed
qed


section \<open>From the chunks to the emitted text\<close>

lemma marker_starts:
  assumes "closesAt s \<or> opensAt s"
  shows "\<exists>t. s = CHR ''<'' # t"
  using assms by (auto simp: closesAt_def opensAt_def prefix_def)

lemma marker_touches:
  assumes "closesAt (x @ rest) \<or> opensAt (x @ rest)"
  shows "touchesMarker x"
proof -
  from assms obtain p where p: "p \<in> set markerStarts" and "prefix p (x @ rest)"
    by (auto simp: closesAt_def opensAt_def markerStarts_def)
  then have "prefix p x \<or> prefix x p"
    by (auto simp: prefix_append)
  with p show ?thesis
    unfolding touchesMarker_def list_ex_iff by blast
qed

lemma scanText_plain:
  "plainChunk c \<Longrightarrow>
     scanText (c @ rest) d = scanText rest d \<and>
     textOpens (c @ rest) = textOpens rest \<and> textCloses (c @ rest) = textCloses rest"
proof (induction c)
  case Nil
  show ?case by simp
next
  case (Cons a c)
  then have "\<not> touchesMarker (a # c)" and "plainChunk c"
    by simp_all
  with marker_touches [of "a # c" rest]
  have "\<not> closesAt (a # c @ rest)" and "\<not> opensAt (a # c @ rest)" and "plainChunk c"
    by auto
  with Cons.IH show ?case
    by simp
qed

lemma scanText_no_lt:
  "CHR ''<'' \<notin> set t \<Longrightarrow>
     scanText (t @ rest) d = scanText rest d \<and>
     textOpens (t @ rest) = textOpens rest \<and> textCloses (t @ rest) = textCloses rest"
proof (induction t)
  case Nil
  show ?case by simp
next
  case (Cons a t)
  then have "a \<noteq> CHR ''<''" and "CHR ''<'' \<notin> set t"
    by auto
  with marker_starts [of "a # t @ rest"]
  have "\<not> closesAt (a # t @ rest)" and "\<not> opensAt (a # t @ rest)" and "CHR ''<'' \<notin> set t"
    by auto
  with Cons.IH show ?case
    by simp
qed

lemma scanText_close:
  "scanText (closePart @ rest) d = (case d of 0 \<Rightarrow> None | Suc d' \<Rightarrow> scanText rest d') \<and>
   textOpens (closePart @ rest) = textOpens rest \<and>
   textCloses (closePart @ rest) = Suc (textCloses rest)"
proof -
  define t where "t = ''!--/lit-part-->''"
  have cp: "closePart @ rest = CHR ''<'' # t @ rest"
    by (simp add: closePart_def t_def)
  have "CHR ''<'' \<notin> set t"
    by (simp add: t_def)
  from scanText_no_lt [OF this]
  have tail: "scanText (t @ rest) k = scanText rest k" "textOpens (t @ rest) = textOpens rest"
    "textCloses (t @ rest) = textCloses rest" for k
    by simp_all
  have here: "closesAt (CHR ''<'' # t @ rest)" "\<not> opensAt (CHR ''<'' # t @ rest)"
    by (simp_all add: closesAt_def opensAt_def t_def)
  have "scanText (CHR ''<'' # t @ rest) d =
      (case d of 0 \<Rightarrow> None | Suc d' \<Rightarrow> scanText rest d')"
    using here tail by (simp split: nat.splits)
  moreover have "textOpens (CHR ''<'' # t @ rest) = textOpens rest"
    using here tail by simp
  moreover have "textCloses (CHR ''<'' # t @ rest) = Suc (textCloses rest)"
    using here tail by simp
  ultimately show ?thesis
    by (simp only: cp simp_thms)
qed

lemma isOpen_shape:
  assumes "isOpen c"
  obtains t where "c = CHR ''<'' # t" and "CHR ''<'' \<notin> set t"
    and "opensAt (c @ rest)" and "\<not> closesAt (c @ rest)"
proof -
  from assms consider "c = openPart" | d where "CHR ''<'' \<notin> set d" "c = openPartDigest d"
    by (auto simp: isOpen_iff)
  then show ?thesis
  proof cases
    case 1
    show ?thesis
      by (rule that [of "''!--lit-part-->''"])
         (simp_all add: 1 openPart_def opensAt_def closesAt_def)
  next
    case 2
    show ?thesis
      by (rule that [of "''!--lit-part '' @ d @ ''-->''"])
         (use 2 in \<open>simp_all add: openPartDigest_def opensAt_def closesAt_def\<close>)
  qed
qed

lemma scanText_open:
  assumes "isOpen c"
  shows "scanText (c @ rest) d = scanText rest (Suc d) \<and>
     textOpens (c @ rest) = Suc (textOpens rest) \<and>
     textCloses (c @ rest) = textCloses rest"
proof -
  from assms obtain t where c: "c = CHR ''<'' # t" and t: "CHR ''<'' \<notin> set t"
    and here: "opensAt (c @ rest)" "\<not> closesAt (c @ rest)"
    by (rule isOpen_shape)
  from scanText_no_lt [OF t]
  have tail: "scanText (t @ rest) k = scanText rest k" "textOpens (t @ rest) = textOpens rest"
    "textCloses (t @ rest) = textCloses rest" for k
    by simp_all
  from here tail show ?thesis
    unfolding c by simp
qed

lemma isPairE:
  assumes "isPair c"
  obtains a where "isOpen a" and "c = a @ closePart"
proof
  from assms show "isOpen (take (length c - 16) c)"
    by (simp add: isPair_def)
  from assms have "drop (length c - 16) c = closePart"
    by (simp add: isPair_def)
  then show "c = take (length c - 16) c @ closePart"
    by (metis append_take_drop_id)
qed

lemma isPair_neutral:
  assumes "isPair c"
  shows "\<not> isClose c \<and> \<not> isOpen c"
proof -
  let ?lts = "\<lambda>s. length (filter (\<lambda>x. x = CHR ''<'') s)"
  have one: "?lts b = 1" if "isOpen b" for b
  proof -
    from that obtain t where "b = CHR ''<'' # t" and "CHR ''<'' \<notin> set t"
      by (rule isOpen_shape)
    then show ?thesis
      by (auto simp: filter_empty_conv)
  qed
  from assms obtain a where a: "isOpen a" and c: "c = a @ closePart"
    by (rule isPairE)
  have "?lts closePart = 1"
    by (simp add: closePart_def)
  with one [OF a] c have two: "?lts c = 2"
    by simp
  with one [of c] have "\<not> isOpen c"
    by auto
  moreover from two have "\<not> isClose c"
    by (auto simp: isClose_def closePart_def)
  ultimately show ?thesis
    by simp
qed

lemma scanText_pair:
  assumes "isPair c"
  shows "scanText (c @ rest) d = scanText rest d \<and>
     textOpens (c @ rest) = Suc (textOpens rest) \<and>
     textCloses (c @ rest) = Suc (textCloses rest)"
proof -
  from assms obtain a where a: "isOpen a" and c: "c = a @ closePart"
    by (rule isPairE)
  from scanText_open [OF a, of "closePart @ rest" d] scanText_close [of rest "Suc d"]
  show ?thesis
    by (simp add: c)
qed

lemma scanText_concat:
  "list_all cleanChunk cs \<Longrightarrow>
     scanText (concat cs) d = scanMarkers cs d \<and>
     textOpens (concat cs) = length (filter isOpen cs) + length (filter isPair cs) \<and>
     textCloses (concat cs) = length (filter isClose cs) + length (filter isPair cs)"
proof (induction cs arbitrary: d)
  case Nil
  show ?case by simp
next
  case (Cons c cs)
  then have clean: "list_all cleanChunk cs" and c: "cleanChunk c"
    by simp_all
  note IH = Cons.IH [OF clean]
  show ?case
  proof (cases "isClose c")
    case True
    then have "c = closePart"
      by (simp add: isClose_def)
    with scanText_close [of "concat cs" d] IH True isOpen_not_isClose [of c]
      isPair_neutral [of c]
    show ?thesis
      by (auto split: nat.splits)
  next
    case False
    show ?thesis
    proof (cases "isOpen c")
      case True
      from scanText_open [OF True, of "concat cs" d] IH False True isPair_neutral [of c]
      show ?thesis
        by auto
    next
      case notOpen: False
      show ?thesis
      proof (cases "isPair c")
        case True
        from scanText_pair [OF True, of "concat cs" d] IH False notOpen True show ?thesis
          by simp
      next
        case notPair: False
        with False notOpen c have "plainChunk c"
          by (simp add: cleanChunk_def)
        from scanText_plain [OF this, of "concat cs" d] IH False notOpen notPair show ?thesis
          by simp
      qed
    qed
  qed
qed
text \<open>
  C2, as the code has it. With fuel left, the chunks of \<open>renderValue\<close> begin with
  an opening marker, \<open><!--lit-part digest-->\<close> when the value is a TemplateResult
  and the bare \<open><!--lit-part-->\<close> otherwise (the two forms differ), also when the
  run throws later. When \<open>renderValue\<close> returns, its chunks end with the closing
  marker \<open><!--/lit-part-->\<close>, so there are at least two of them. When moreover the
  content brings no marker chunk of its own (\<open>goodEnv\<close>, \<open>goodChildRenderer\<close>,
  \<open>goodVal\<close>) and in every chunk yielded that is neither a bracket marker nor
  the placeholder pair no marker starts (\<open>cleanChunk\<close>), then in the emitted text,
  the chunks put together, the opening and closing markers are stack-balanced and equal
  in number. With enough fuel the run returns or throws.
\<close>

theorem renderValue_bracket_markers:
  "(0 < n \<longrightarrow>
      fst (renderValue n env v cr ri wd) \<noteq> [] \<and>
      (\<forall>t. v = VTemplate t \<longrightarrow>
         hd (fst (renderValue n env v cr ri wd)) = ''<!--lit-part '' @ digest t @ ''-->'') \<and>
      ((\<forall>t. v \<noteq> VTemplate t) \<longrightarrow>
         hd (fst (renderValue n env v cr ri wd)) = ''<!--lit-part-->''))
   \<and> ''<!--lit-part '' @ d @ ''-->'' \<noteq> ''<!--lit-part-->''
   \<and> (\<forall>cs wd'. renderValue n env v cr ri wd = (cs, Return wd') \<longrightarrow>
         last cs = ''<!--/lit-part-->'' \<and> 2 \<le> length cs \<and>
         (goodEnv env \<and> goodChildRenderer cr \<and> goodVal env v \<and> list_all cleanChunk cs \<longrightarrow>
            textBalanced (concat cs) \<and> textOpens (concat cs) = textCloses (concat cs)))
   \<and> (totalEnv env \<and> totalChildRenderer cr \<and> lightBound env L \<and> fuelNeeded L v \<le> n \<longrightarrow>
         snd (renderValue n env v cr ri wd) \<noteq> OutOfFuel)"
proof -
  have opens: "fst (renderValue n env v cr ri wd) \<noteq> [] \<and>
      hd (fst (renderValue n env v cr ri wd)) = openFor v" if "0 < n"
    using that renderValue_opens [of "n - 1" env v cr ri wd] by (cases n) simp_all
  have c1: "0 < n \<longrightarrow>
      fst (renderValue n env v cr ri wd) \<noteq> [] \<and>
      (\<forall>t. v = VTemplate t \<longrightarrow>
         hd (fst (renderValue n env v cr ri wd)) = ''<!--lit-part '' @ digest t @ ''-->'') \<and>
      ((\<forall>t. v \<noteq> VTemplate t) \<longrightarrow>
         hd (fst (renderValue n env v cr ri wd)) = ''<!--lit-part-->'')"
  proof (intro impI conjI allI)
    assume n: "0 < n"
    from opens [OF n] show "fst (renderValue n env v cr ri wd) \<noteq> []"
      by simp
    show "hd (fst (renderValue n env v cr ri wd)) = ''<!--lit-part '' @ digest t @ ''-->''"
      if "v = VTemplate t" for t
      using opens [OF n] that by (simp add: openPartDigest_def)
    show "hd (fst (renderValue n env v cr ri wd)) = ''<!--lit-part-->''"
      if "\<forall>t. v \<noteq> VTemplate t"
      using opens [OF n] that by (cases v) (simp_all add: openPart_def)
  qed
  have c4: "''<!--lit-part '' @ d @ ''-->'' \<noteq> ''<!--lit-part-->''"
    by simp
  have c5: "last cs = ''<!--/lit-part-->'' \<and> 2 \<le> length cs \<and>
         (goodEnv env \<and> goodChildRenderer cr \<and> goodVal env v \<and> list_all cleanChunk cs \<longrightarrow>
            textBalanced (concat cs) \<and> textOpens (concat cs) = textCloses (concat cs))"
    if run: "renderValue n env v cr ri wd = (cs, Return wd')" for cs wd'
  proof -
    from renderValue_bracketed [OF run]
    have br: "last cs = ''<!--/lit-part-->'' \<and> 2 \<le> length cs"
      by (simp add: closePart_def)
    have "textBalanced (concat cs) \<and> textOpens (concat cs) = textCloses (concat cs)"
      if good: "goodEnv env \<and> goodChildRenderer cr \<and> goodVal env v \<and> list_all cleanChunk cs"
    proof -
      from good run have "balanced cs"
        by (blast intro: balanced_renderValue)
      then have chunks: "scanMarkers cs 0 = Some 0"
        by (simp add: balanced_def)
      from good have "list_all cleanChunk cs"
        by blast
      from scanText_concat [OF this, of 0] chunks scanMarkers_count [OF chunks]
      show ?thesis
        by (simp add: textBalanced_def)
    qed
    with br show ?thesis
      by blast
  qed
  have c6: "snd (renderValue n env v cr ri wd) \<noteq> OutOfFuel"
    if "totalEnv env \<and> totalChildRenderer cr \<and> lightBound env L \<and> fuelNeeded L v \<le> n"
  proof -
    from that have "finishes (renderValue n env v cr ri wd)"
      by (intro renderValue_total [where L = L]) simp_all
    then show ?thesis
      unfolding finishes_def .
  qed
  from c1 c4 c5 c6 show ?thesis
    by blast
qed

theorem renderValue_bracket_markers_witness:
  "goodEnv envM \<and> goodChildRenderer None \<and> goodVal envM vM \<and>
   totalEnv envM \<and> totalChildRenderer None \<and> lightBound envM 1 \<and> fuelNeeded 1 vM = 3 \<and>
   renderValue 3 envM vM None ri0 wd0 =
     ([''<!--lit-part-->'',
       ''<!--lit-part DM-->'', [], ''<!--lit-part-->'', ''hi'', ''<!--/lit-part-->'', ''x'',
       ''<!--/lit-part-->'',
       ''<!--lit-part-->'', ''<!--/lit-part-->'',
       ''<!--/lit-part-->''], Return wd0) \<and>
   list_all cleanChunk (fst (renderValue 3 envM vM None ri0 wd0)) \<and>
   textBalanced (concat (fst (renderValue 3 envM vM None ri0 wd0))) \<and>
   textOpens (concat (fst (renderValue 3 envM vM None ri0 wd0))) = 4 \<and>
   textCloses (concat (fst (renderValue 3 envM vM None ri0 wd0))) = 4 \<and>
   snd (renderValue 3 envM vM None ri0 wd0) \<noteq> OutOfFuel"
proof -
  have env: "goodEnv envM"
    by (auto simp: goodEnv_def envM_def env0_def)
  have cr: "goodChildRenderer None"
    by (simp add: goodChildRenderer_def)
  have "neutralMarkup htmlM"
    by (rule neutralMarkup_short) (simp add: htmlM_def)
  moreover have "neutral ''hi''"
    by (rule neutral_short) simp
  ultimately have v: "goodVal envM vM"
    by (simp add: vM_def tM_def)
  have tenv: "totalEnv envM"
    by (simp add: totalEnv_def envM_def env0_def finishes_def)
  have tcr: "totalChildRenderer None"
    by (simp add: totalChildRenderer_def)
  have light: "lightBound envM 1"
    by (simp add: lightBound_def envM_def env0_def)
  have fuel: "fuelNeeded 1 vM = 3"
    by (simp add: vM_def tM_def)
  have run: "renderValue 3 envM vM None ri0 wd0 =
     ([''<!--lit-part-->'',
       ''<!--lit-part DM-->'', [], ''<!--lit-part-->'', ''hi'', ''<!--/lit-part-->'', ''x'',
       ''<!--/lit-part-->'',
       ''<!--lit-part-->'', ''<!--/lit-part-->'',
       ''<!--/lit-part-->''], Return wd0)"
    by code_simp
  let ?cs = "fst (renderValue 3 envM vM None ri0 wd0)"
  have clean: "list_all cleanChunk ?cs"
    by code_simp
  have opens: "textOpens (concat ?cs) = 4"
    by code_simp
  have whole: "renderValue 3 envM vM None ri0 wd0 = (?cs, Return wd0)"
    by (simp only: run fst_conv)
  note markers = renderValue_bracket_markers [of 3 envM vM None ri0 wd0 _ 1]
  from markers whole env cr v clean
  have bal: "textBalanced (concat ?cs) \<and> textOpens (concat ?cs) = textCloses (concat ?cs)"
    by blast
  with opens have closes: "textCloses (concat ?cs) = 4"
    by (simp only:)
  from fuel have "fuelNeeded 1 vM \<le> 3"
    by simp
  with markers tenv tcr light have total: "snd (renderValue 3 envM vM None ri0 wd0) \<noteq> OutOfFuel"
    by blast
  from env cr v tenv tcr light fuel run clean bal opens closes total show ?thesis
    by blast
qed

text \<open>
  The claim as stated fails. A render-light directive on an empty instance stack (here
  inside an array) makes \<open>renderValue\<close> throw after two opening markers, with no
  closing marker at all. A value whose text is itself a closing marker is yielded as it
  is, so the output has one opening and two closing markers; so it is when the closing
  marker is only a part of the value's text, and when a collaborator yields it in two
  chunks.
\<close>

theorem renderValue_bracket_markers_counterexample:
  "renderValue 2 env0 (VArray [VRenderLight]) None ri0 wd0 =
     ([''<!--lit-part-->'', ''<!--lit-part-->''],
      Throw (TypeError ''cannot read instance of undefined'')) \<and>
   renderValue 1 env0 (VOther ''<!--/lit-part-->'') None ri0 wd0 =
     ([''<!--lit-part-->'', ''<!--/lit-part-->'', ''<!--/lit-part-->''], Return wd0) \<and>
   \<not> textBalanced (concat (fst (renderValue 1 env0 (VOther ''<!--/lit-part-->'') None ri0 wd0))) \<and>
   textOpens (concat (fst (renderValue 1 env0 (VOther ''<!--/lit-part-->'') None ri0 wd0))) = 1 \<and>
   textCloses (concat (fst (renderValue 1 env0 (VOther ''<!--/lit-part-->'') None ri0 wd0))) = 2 \<and>
   renderValue 1 env0 (VOther ''x<!--/lit-part-->'') None ri0 wd0 =
     ([''<!--lit-part-->'', ''x<!--/lit-part-->'', ''<!--/lit-part-->''], Return wd0) \<and>
   \<not> textBalanced (concat (fst (renderValue 1 env0 (VOther ''x<!--/lit-part-->'') None ri0 wd0))) \<and>
   textOpens (concat (fst (renderValue 1 env0 (VOther ''x<!--/lit-part-->'') None ri0 wd0))) = 1 \<and>
   textCloses (concat (fst (renderValue 1 env0 (VOther ''x<!--/lit-part-->'') None ri0 wd0))) = 2 \<and>
   renderValue 1 envSplit (VRepeat 0) None ri0 wd0 =
     ([''<!--lit-part-->'', ''<!--/lit'', ''-part-->'', ''<!--/lit-part-->''], Return wd0) \<and>
   \<not> textBalanced (concat (fst (renderValue 1 envSplit (VRepeat 0) None ri0 wd0))) \<and>
   textOpens (concat (fst (renderValue 1 envSplit (VRepeat 0) None ri0 wd0))) = 1 \<and>
   textCloses (concat (fst (renderValue 1 envSplit (VRepeat 0) None ri0 wd0))) = 2"
  by code_simp

section \<open>The instance stack\<close>

lemma pop_push [simp]: "pop (push tag wd) = wd"
  by (simp add: pop_def push_def)

lemma traverse_noop: "traverse node wd = wd"
proof (induction node arbitrary: wd)
  case (Element tag attrs childNodes loc)
  have "fold traverse ns s = s" if "set ns \<subseteq> set childNodes" for ns s
    using that by (induction ns arbitrary: s) (simp_all add: Element.IH)
  then show ?case by simp
qed simp_all

text \<open>
  C4 does not hold of the code. The \<open>traverse\<close> call with its pushes and pops runs to
  its end before the first node is handled and leaves the stack as it was
  (\<open>traverse_noop\<close>), so during the walk of a top-level element the top of the stack
  is the entry of that top-level element, whatever the nesting. A value inside
  \<open><div><span>...</span></div>\<close> is dispatched with \<open>div\<close> on top, not the
  enclosing \<open>span\<close>; and in \<open><x-outer><x-inner></x-inner>${renderLight()}</x-outer>\<close>
  the instance of \<open>x-inner\<close> has overwritten that of \<open>x-outer\<close> in the one entry,
  so the directive renders the light DOM of \<open>x-inner\<close>, which does not enclose it.
\<close>

theorem render_instance_stack_top:
  "fst (render 2 env1 (VTemplate tNested) None False wd0) =
     [''<!--lit-part D6-->'', ''<div><span>'',
      ''<!--lit-part-->'', ''div'', ''<!--/lit-part-->'',
      ''</span></div>'', ''<!--/lit-part-->''] \<and>
   fst (render 3 env1 (VTemplate tLight) None False wd0) =
     [''<!--lit-part D7-->'', ''<x-outer>'', ''<x-inner>'', ''</x-inner>'',
      ''<!--lit-part-->'', ''<!--lit-part-->'', ''x-inner'', ''<!--/lit-part-->'',
      ''<!--/lit-part-->'', ''</x-outer>'', ''<!--/lit-part-->'']"
  by code_simp

end
